theory Spec2Isabelle
  imports Main
begin

section \<open>Data model\<close>

text \<open>
  The contract store (\<^verbatim>\<open>stores/contractStore.ts\<close>) and the contract page
  (\<^verbatim>\<open>pages/Contracts/ContractView/ContractView.tsx\<close>) are embedded here. The union types
  of \<^verbatim>\<open>types/\<close> become datatypes; their constructors are the string literals the code
  compares against.
\<close>

datatype ContractStatus = CREATED | APPROVED | SENT | SIGNED | LOCKED | REVOKED

datatype FieldType = TEXT | DATE | SIGNATURE | CHECKBOX

datatype EditableBy = manager | client | both

datatype DashboardFilter = Active | Pending | Signed | Archived

text \<open>The value of a contract field: \<^verbatim>\<open>string | boolean | null\<close>.\<close>

datatype FieldValue = VNull | VString string | VBoolean bool

text \<open>
  A JavaScript string is a sequence of UTF-16 code units. The strings the code trims or
  lower-cases (the names of contracts and blueprints, the search query) are modelled as
  such: a list of numbers, each below 65536. The strings the code only copies and compares
  (ids, labels, timestamps) stay \<^typ>\<open>string\<close>. \<open>codeUnits\<close> gives the code units of a
  literal written with ASCII and Latin-1 characters.

  \<^verbatim>\<open>getCurrentTimestamp\<close> and \<^verbatim>\<open>generateId\<close> live in \<^verbatim>\<open>utils/\<close>, which is not
  among the sources; what they return is a parameter (\<open>now\<close>, \<open>newId\<close>) of each
  operation that calls them.
\<close>

type_synonym codeUnit = nat

type_synonym jsString = "codeUnit list"

definition codeUnits :: "string \<Rightarrow> jsString" where
  "codeUnits s = map of_char s"

type_synonym timestamp = string

text \<open>
  Objects and arrays are referred to by address. A field record holds primitives only;
  a contract and a blueprint hold the address of their \<^verbatim>\<open>fields\<close> array, whose elements
  are addresses of field objects.
\<close>

type_synonym addr = nat

record FieldBase =
  f_id :: string
  f_type :: FieldType
  f_label :: string
  f_position :: int
  f_required :: bool
  f_editableBy :: "EditableBy option"
  f_placeholder :: "string option"

record BlueprintField = FieldBase +
  f_defaultChecked :: "bool option"

record ContractField = FieldBase +
  f_value :: FieldValue

record Blueprint =
  b_id :: string
  b_name :: jsString
  b_fields :: addr
  b_createdAt :: timestamp
  b_updatedAt :: timestamp

record Contract =
  c_id :: string
  c_name :: jsString
  c_blueprintId :: string
  c_blueprintName :: jsString
  c_status :: ContractStatus
  c_fields :: addr
  c_createdAt :: timestamp
  c_updatedAt :: timestamp

record ContractCreateInput =
  i_name :: jsString
  i_blueprintId :: string

section \<open>Lifecycle state machine\<close>

text \<open>
  Modelled from the spec: \<^verbatim>\<open>utils/stateMachine.ts\<close> is imported by the store and by the
  page but is not among the sources. The transition table below is the one of section 4.1
  of the specification, each allowed set in the order listed there.
\<close>

fun VALID_TRANSITIONS :: "ContractStatus \<Rightarrow> ContractStatus list" where
  "VALID_TRANSITIONS CREATED = [APPROVED, REVOKED]"
| "VALID_TRANSITIONS APPROVED = [SENT, REVOKED, CREATED]"
| "VALID_TRANSITIONS SENT = [SIGNED, REVOKED]"
| "VALID_TRANSITIONS SIGNED = [LOCKED]"
| "VALID_TRANSITIONS LOCKED = []"
| "VALID_TRANSITIONS REVOKED = []"

text \<open>
  Modelled from the spec: \<^verbatim>\<open>getValidTransitions(from)\<close> returns the allowed set for
  \<open>from\<close>.
\<close>

definition getValidTransitions :: "ContractStatus \<Rightarrow> ContractStatus list" where
  "getValidTransitions from = VALID_TRANSITIONS from"

text \<open>
  Modelled from the spec: \<^verbatim>\<open>canTransition(from, to)\<close> is true iff \<open>to\<close> is a member of
  the allowed set for \<open>from\<close>.
\<close>

definition canTransition :: "ContractStatus \<Rightarrow> ContractStatus \<Rightarrow> bool" where
  "canTransition from to = List.member (getValidTransitions from) to"

text \<open>
  \<^verbatim>\<open>LIFECYCLE_STEPS\<close> of the contract page: the forward order of the lifecycle.
  \<^verbatim>\<open>REVOKED\<close> is not a step of it.
\<close>

definition LIFECYCLE_STEPS :: "ContractStatus list" where
  "LIFECYCLE_STEPS = [CREATED, APPROVED, SENT, SIGNED, LOCKED]"

text \<open>\<^verbatim>\<open>Array.prototype.indexOf\<close>: the first index of the element, or \<open>-1\<close>.\<close>

fun indexOf :: "'a list \<Rightarrow> 'a \<Rightarrow> int" where
  "indexOf [] y = -1"
| "indexOf (x # xs) y =
     (if x = y then 0 else (let i = indexOf xs y in if i < 0 then -1 else i + 1))"

text \<open>
  A transition is backward when both statuses are lifecycle steps and the target comes
  strictly earlier than the source.
\<close>

definition backward :: "ContractStatus \<Rightarrow> ContractStatus \<Rightarrow> bool" where
  "backward from to =
     (0 \<le> indexOf LIFECYCLE_STEPS from \<and> 0 \<le> indexOf LIFECYCLE_STEPS to \<and>
      indexOf LIFECYCLE_STEPS to < indexOf LIFECYCLE_STEPS from)"

section \<open>Dashboard projection\<close>

text \<open>
  Modelled from the spec: \<^verbatim>\<open>getStatusesForFilter\<close> is imported from \<^verbatim>\<open>utils/\<close>, which
  is not among the sources. The buckets are those of section 4.4 of the specification.
\<close>

fun getStatusesForFilter :: "DashboardFilter \<Rightarrow> ContractStatus list" where
  "getStatusesForFilter Active = [CREATED, APPROVED]"
| "getStatusesForFilter Pending = [SENT]"
| "getStatusesForFilter Signed = [SIGNED, LOCKED]"
| "getStatusesForFilter Archived = [REVOKED]"

text \<open>
  Modelled from the spec: the mapping of each status to its one bucket, of which
  \<^verbatim>\<open>getStatusesForFilter\<close> is the inverse.
\<close>

fun bucketOf :: "ContractStatus \<Rightarrow> DashboardFilter" where
  "bucketOf CREATED = Active"
| "bucketOf APPROVED = Active"
| "bucketOf SENT = Pending"
| "bucketOf SIGNED = Signed"
| "bucketOf LOCKED = Signed"
| "bucketOf REVOKED = Archived"

section \<open>String operations\<close>

text \<open>
  The code units \<^verbatim>\<open>String.prototype.trim\<close> removes, the white space and line
  terminators of ECMAScript: tab, line feed, vertical tab, form feed, carriage return,
  space, no-break space, U+1680, U+2000 to U+200A, U+2028, U+2029, U+202F, U+205F, U+3000
  and U+FEFF.
\<close>

definition isWhiteSpace :: "codeUnit \<Rightarrow> bool" where
  "isWhiteSpace c =
     (c \<in> {9, 10, 11, 12, 13, 32, 160, 5760, 8232, 8233, 8239, 8287, 12288, 65279}
      \<or> (8192 \<le> c \<and> c \<le> 8202))"

definition trim :: "jsString \<Rightarrow> jsString" where
  "trim s = rev (dropWhile isWhiteSpace (rev (dropWhile isWhiteSpace s)))"

text \<open>
  \<^verbatim>\<open>String.prototype.toLowerCase\<close> follows the Unicode default case conversion, which
  is not one map over the characters: the Greek capital sigma (U+03A3, 931) becomes the
  final small sigma (962) at the end of a word and the small sigma (963) elsewhere, and
  the capital I with dot above (U+0130, 304) becomes two code units, i and the combining
  dot above (105, 775). The model is exact on the strings whose code units are below
  256, Greek letters from alpha to omega (913 to 937 and 945 to 969) or 304; it leaves
  every other code unit as it is, which is not what the real function does for the
  capitals of other scripts.

  \<open>lowerUnit\<close> is the conversion of one code unit that does not depend on its context:
  A to Z, the Latin-1 capitals 192 to 222 (without the multiplication sign 215) and the
  Greek capitals other than sigma move up by 32.
\<close>

definition lowerUnit :: "codeUnit \<Rightarrow> codeUnit" where
  "lowerUnit c =
     (if (65 \<le> c \<and> c \<le> 90) \<or> (192 \<le> c \<and> c \<le> 222 \<and> c \<noteq> 215)
         \<or> (913 \<le> c \<and> c \<le> 937 \<and> c \<noteq> 930 \<and> c \<noteq> 931)
      then c + 32 else c)"

text \<open>
  The condition \<^verbatim>\<open>Final_Sigma\<close> of Unicode: the sigma is preceded by a cased letter
  and then any number of case-ignorable characters, and is not followed by any number
  of case-ignorable characters and then a cased letter. Among the code units of the
  model the cased ones are the letters (with the ordinal indicators 170 and 186 and the
  micro sign 181); the case-ignorable ones are the apostrophe, full stop, colon,
  circumflex, grave accent, diaeresis, soft hyphen, macron, acute accent, middle dot and
  cedilla.
\<close>

definition cased :: "codeUnit \<Rightarrow> bool" where
  "cased c =
     ((65 \<le> c \<and> c \<le> 90) \<or> (97 \<le> c \<and> c \<le> 122) \<or> c = 170 \<or> c = 181 \<or> c = 186
      \<or> (192 \<le> c \<and> c \<le> 255 \<and> c \<noteq> 215 \<and> c \<noteq> 247) \<or> c = 304
      \<or> (913 \<le> c \<and> c \<le> 937 \<and> c \<noteq> 930) \<or> (945 \<le> c \<and> c \<le> 969))"

definition caseIgnorable :: "codeUnit \<Rightarrow> bool" where
  "caseIgnorable c = (c \<in> {39, 46, 58, 94, 96, 168, 173, 175, 180, 183, 184})"

definition casedAfterIgnorables :: "jsString \<Rightarrow> bool" where
  "casedAfterIgnorables s =
     (case dropWhile caseIgnorable s of [] \<Rightarrow> False | c # rest \<Rightarrow> cased c)"

definition finalSigma :: "jsString \<Rightarrow> jsString \<Rightarrow> bool" where
  "finalSigma before after =
     (casedAfterIgnorables (rev before) \<and> \<not> casedAfterIgnorables after)"

text \<open>\<open>lowerFrom before s\<close> converts \<open>s\<close>, the part of the string that follows \<open>before\<close>.\<close>

fun lowerFrom :: "jsString \<Rightarrow> jsString \<Rightarrow> jsString" where
  "lowerFrom before [] = []"
| "lowerFrom before (c # rest) =
     (if c = 931 then [if finalSigma before rest then 962 else 963]
      else if c = 304 then [105, 775]
      else [lowerUnit c])
       @ lowerFrom (before @ [c]) rest"

definition toLowerCase :: "jsString \<Rightarrow> jsString" where
  "toLowerCase s = lowerFrom [] s"

fun startsWith :: "'a list \<Rightarrow> 'a list \<Rightarrow> bool" where
  "startsWith s [] = True"
| "startsWith [] (q # qs) = False"
| "startsWith (c # cs) (q # qs) = (c = q \<and> startsWith cs qs)"

text \<open>\<^verbatim>\<open>String.prototype.includes\<close>: the search string occurs at some position.\<close>

fun includesString :: "'a list \<Rightarrow> 'a list \<Rightarrow> bool" where
  "includesString [] q = startsWith [] q"
| "includesString (c # cs) q = (startsWith (c # cs) q \<or> includesString cs q)"

text \<open>
  The specification's wording, for comparison with the code. \<open>q\<close> is a substring of \<open>s\<close>
  when it occurs in \<open>s\<close>. Two code units are the same letter up to case when they are
  equal or are the capital and small form of one letter; the pairs are listed, for the
  letters A to Z, the Latin-1 letters and the Greek letters alpha to omega (sigma has two
  small forms). \<open>q\<close> is a case-insensitive substring of \<open>s\<close> when some stretch of \<open>s\<close>
  agrees with \<open>q\<close> unit by unit up to case.
\<close>

definition isSubstringOf :: "jsString \<Rightarrow> jsString \<Rightarrow> bool" where
  "isSubstringOf q s = (\<exists>before after. s = before @ q @ after)"

definition casePairs :: "(codeUnit \<times> codeUnit) list" where
  "casePairs =
     zip [65 ..< 91] [97 ..< 123] @ zip [192 ..< 215] [224 ..< 247]
     @ zip [216 ..< 223] [248 ..< 255]
     @ zip [913 ..< 930] [945 ..< 962] @ zip [932 ..< 938] [964 ..< 970]
     @ [(931, 963), (931, 962), (963, 962)]"

definition sameIgnoringCase :: "codeUnit \<Rightarrow> codeUnit \<Rightarrow> bool" where
  "sameIgnoringCase a b = (a = b \<or> (a, b) \<in> set casePairs \<or> (b, a) \<in> set casePairs)"

definition caseInsensitiveSubstring :: "jsString \<Rightarrow> jsString \<Rightarrow> bool" where
  "caseInsensitiveSubstring q s =
     (\<exists>before mid after. s = before @ mid @ after \<and> list_all2 sameIgnoringCase q mid)"

definition isLatin1 :: "jsString \<Rightarrow> bool" where
  "isLatin1 s = list_all (\<lambda>c. c < 256) s"

section \<open>The object store\<close>

text \<open>
  Every object the operations read or allocate lives in one heap; the address of an
  object is its index. Allocation appends, a write replaces the object at an address.
\<close>

datatype obj = BFieldObj BlueprintField | CFieldObj ContractField | ArrayObj "addr list"

type_synonym heap = "obj list"

definition alloc :: "heap \<Rightarrow> obj \<Rightarrow> addr \<times> heap" where
  "alloc h ob = (length h, h @ [ob])"

definition store :: "heap \<Rightarrow> addr \<Rightarrow> obj \<Rightarrow> heap" where
  "store h a ob = h[a := ob]"

definition lookup :: "heap \<Rightarrow> addr \<Rightarrow> obj option" where
  "lookup h a = (if a < length h then Some (h ! a) else None)"

text \<open>
  Typed reads. The source's types exclude a dangling address and an object of the wrong
  kind; the reads return a fixed value there, and \<open>wf_blueprint\<close> below states the typing
  the theorems about contents rely on.
\<close>

definition arrayAt :: "heap \<Rightarrow> addr \<Rightarrow> addr list" where
  "arrayAt h a = (case lookup h a of Some (ArrayObj xs) \<Rightarrow> xs | _ \<Rightarrow> [])"

definition noBlueprintField :: BlueprintField where
  "noBlueprintField =
     \<lparr>f_id = [], f_type = TEXT, f_label = [], f_position = 0, f_required = False,
      f_editableBy = None, f_placeholder = None, f_defaultChecked = None\<rparr>"

definition bfieldAt :: "heap \<Rightarrow> addr \<Rightarrow> BlueprintField" where
  "bfieldAt h a = (case lookup h a of Some (BFieldObj f) \<Rightarrow> f | _ \<Rightarrow> noBlueprintField)"

definition noContractField :: ContractField where
  "noContractField =
     \<lparr>f_id = [], f_type = TEXT, f_label = [], f_position = 0, f_required = False,
      f_editableBy = None, f_placeholder = None, f_value = VNull\<rparr>"

definition cfieldAt :: "heap \<Rightarrow> addr \<Rightarrow> ContractField" where
  "cfieldAt h a = (case lookup h a of Some (CFieldObj f) \<Rightarrow> f | _ \<Rightarrow> noContractField)"

text \<open>The fields of a blueprint and of a contract as the heap shows them, in array order.\<close>

definition blueprintFields :: "heap \<Rightarrow> Blueprint \<Rightarrow> BlueprintField list" where
  "blueprintFields h b = map (bfieldAt h) (arrayAt h (b_fields b))"

definition contractFields :: "heap \<Rightarrow> Contract \<Rightarrow> ContractField list" where
  "contractFields h c = map (cfieldAt h) (arrayAt h (c_fields c))"

text \<open>
  The addresses a blueprint and a contract own: the \<^verbatim>\<open>fields\<close> array and its elements.
\<close>

definition blueprintAddrs :: "heap \<Rightarrow> Blueprint \<Rightarrow> addr set" where
  "blueprintAddrs h b = insert (b_fields b) (set (arrayAt h (b_fields b)))"

definition contractAddrs :: "heap \<Rightarrow> Contract \<Rightarrow> addr set" where
  "contractAddrs h c = insert (c_fields c) (set (arrayAt h (c_fields c)))"

text \<open>
  A blueprint is well-typed in a heap when its \<^verbatim>\<open>fields\<close> is the address of an array
  whose elements are addresses of blueprint field objects.
\<close>

definition isBField :: "heap \<Rightarrow> addr \<Rightarrow> bool" where
  "isBField h a = (case lookup h a of Some (BFieldObj f) \<Rightarrow> True | _ \<Rightarrow> False)"

definition isArray :: "heap \<Rightarrow> addr \<Rightarrow> bool" where
  "isArray h a = (case lookup h a of Some (ArrayObj xs) \<Rightarrow> True | _ \<Rightarrow> False)"

definition wf_blueprint :: "heap \<Rightarrow> Blueprint \<Rightarrow> bool" where
  "wf_blueprint h b = (isArray h (b_fields b) \<and> list_all (isBField h) (arrayAt h (b_fields b)))"

text \<open>
  \<^verbatim>\<open>Array.prototype.sort\<close> with the comparator \<^verbatim>\<open>(a, b) => a.position - b.position\<close>: the
  array at address \<open>a\<close> is sorted in place (the sort is stable) and the same address is
  returned.
\<close>

definition sortByPosition :: "heap \<Rightarrow> addr \<Rightarrow> heap" where
  "sortByPosition h a =
     store h a (ArrayObj (sort_key (\<lambda>x. f_position (bfieldAt h x)) (arrayAt h a)))"

text \<open>Allocation of one new object per element, as the callback of \<^verbatim>\<open>map\<close> does.\<close>

fun allocAll :: "heap \<Rightarrow> obj list \<Rightarrow> addr list \<times> heap" where
  "allocAll h [] = ([], h)"
| "allocAll h (ob # obs) =
     (let (a, h1) = alloc h ob; (as, h2) = allocAll h1 obs in (a # as, h2))"

section \<open>Blueprint store\<close>

text \<open>
  Modelled from the spec: \<^verbatim>\<open>stores/blueprintStore.ts\<close> is not among the sources.
  \<^verbatim>\<open>getBlueprint(id)\<close> is the read accessor of the blueprint repository; like
  \<^verbatim>\<open>getContract\<close> below it returns the stored blueprint with that id, so the \<^verbatim>\<open>fields\<close>
  of the result is the address of the stored array.
\<close>

definition getBlueprint :: "Blueprint list \<Rightarrow> string \<Rightarrow> Blueprint option" where
  "getBlueprint blueprints i = find (\<lambda>b. b_id b = i) blueprints"

section \<open>Contract store\<close>

text \<open>
  The state of the store is its \<^verbatim>\<open>contracts\<close> array (\<^verbatim>\<open>isLoading\<close> is never written).
  Each operation takes the state and returns its result with the new state;
  \<^verbatim>\<open>createContract\<close> also reads and writes the heap.
\<close>

definition getContract :: "Contract list \<Rightarrow> string \<Rightarrow> Contract option" where
  "getContract contracts i = find (\<lambda>c. c_id c = i) contracts"

definition getContractsByFilter :: "Contract list \<Rightarrow> DashboardFilter \<Rightarrow> Contract list" where
  "getContractsByFilter contracts flt =
     (let statuses = getStatusesForFilter flt
      in filter (\<lambda>c. List.member statuses (c_status c)) contracts)"

text \<open>The object literal the callback of \<^verbatim>\<open>map\<close> builds from a blueprint field.\<close>

definition toContractField :: "BlueprintField \<Rightarrow> ContractField" where
  "toContractField bf =
     \<lparr>f_id = f_id bf, f_type = f_type bf, f_label = f_label bf,
      f_position = f_position bf, f_required = f_required bf,
      f_editableBy = f_editableBy bf, f_placeholder = f_placeholder bf,
      f_value = (if f_type bf = CHECKBOX
                 then VBoolean (case f_defaultChecked bf of Some d \<Rightarrow> d | None \<Rightarrow> False)
                 else VNull)\<rparr>"

text \<open>The object literal \<^verbatim>\<open>contract\<close> that \<^verbatim>\<open>createContract\<close> builds.\<close>

definition newContract ::
  "timestamp \<Rightarrow> string \<Rightarrow> ContractCreateInput \<Rightarrow> Blueprint \<Rightarrow> addr \<Rightarrow> Contract" where
  "newContract now newId input blueprint fieldsAddr =
     \<lparr>c_id = newId, c_name = trim (i_name input),
      c_blueprintId = b_id blueprint, c_blueprintName = b_name blueprint,
      c_status = CREATED, c_fields = fieldsAddr,
      c_createdAt = now, c_updatedAt = now\<rparr>"

text \<open>
  \<^verbatim>\<open>createContract\<close>: the two early returns, then the in-place sort of
  \<^verbatim>\<open>blueprint.fields\<close>, the \<^verbatim>\<open>map\<close> that allocates one new field object per element and
  the new array holding them, and the append of the new contract to the store. The new
  objects get the next free addresses; which of them comes first is of no consequence.
\<close>

definition createContract ::
  "timestamp \<Rightarrow> string \<Rightarrow> heap \<Rightarrow> Blueprint list \<Rightarrow> Contract list \<Rightarrow> ContractCreateInput
     \<Rightarrow> Contract option \<times> heap \<times> Contract list" where
  "createContract now newId h blueprints contracts input =
     (if trim (i_name input) = [] then (None, h, contracts)
      else case getBlueprint blueprints (i_blueprintId input) of
        None \<Rightarrow> (None, h, contracts)
      | Some blueprint \<Rightarrow>
          (let h1 = sortByPosition h (b_fields blueprint);
               sorted = arrayAt h1 (b_fields blueprint);
               (elems, h2) = allocAll h1 (map (\<lambda>a. CFieldObj (toContractField (bfieldAt h1 a))) sorted);
               (fieldsAddr, h3) = alloc h2 (ArrayObj elems);
               contract = newContract now newId input blueprint fieldsAddr
           in (Some contract, h3, contracts @ [contract])))"

definition updateContractFields ::
  "timestamp \<Rightarrow> Contract list \<Rightarrow> string \<Rightarrow> addr \<Rightarrow> bool \<times> Contract list" where
  "updateContractFields now contracts i updatedFields =
     (case getContract contracts i of
        None \<Rightarrow> (False, contracts)
      | Some contract \<Rightarrow>
          (let isManagerEditable = (c_status contract = CREATED);
               isClientEditable = (c_status contract = SENT)
           in if \<not> isManagerEditable \<and> \<not> isClientEditable then (False, contracts)
              else (True,
                    map (\<lambda>c. if c_id c = i
                              then c\<lparr>c_fields := updatedFields, c_updatedAt := now\<rparr>
                              else c) contracts)))"

definition transitionStatus ::
  "timestamp \<Rightarrow> Contract list \<Rightarrow> string \<Rightarrow> ContractStatus \<Rightarrow> bool \<times> Contract list" where
  "transitionStatus now contracts i newStatus =
     (case getContract contracts i of
        None \<Rightarrow> (False, contracts)
      | Some contract \<Rightarrow>
          if \<not> canTransition (c_status contract) newStatus then (False, contracts)
          else (True,
                map (\<lambda>c. if c_id c = i
                          then c\<lparr>c_status := newStatus, c_updatedAt := now\<rparr>
                          else c) contracts))"

definition deleteContract :: "Contract list \<Rightarrow> string \<Rightarrow> bool \<times> Contract list" where
  "deleteContract contracts i =
     (let exists = list_ex (\<lambda>c. c_id c = i) contracts
      in (exists, if exists then filter (\<lambda>c. c_id c \<noteq> i) contracts else contracts))"

definition searchContracts :: "Contract list \<Rightarrow> jsString \<Rightarrow> Contract list" where
  "searchContracts contracts query =
     (let q = toLowerCase query
      in filter (\<lambda>c. includesString (toLowerCase (c_name c)) q \<or>
                     includesString (toLowerCase (c_blueprintName c)) q) contracts)"

section \<open>The specification's wording of a copied field\<close>

text \<open>
  A contract field is a copy of a blueprint field when the seven copied properties agree;
  its initial value is the default-checked flag for a CHECKBOX (false if unset) and null
  for every other type.
\<close>

definition isCopyOf :: "ContractField \<Rightarrow> BlueprintField \<Rightarrow> bool" where
  "isCopyOf cf bf =
     (f_id cf = f_id bf \<and> f_type cf = f_type bf \<and> f_label cf = f_label bf \<and>
      f_position cf = f_position bf \<and> f_required cf = f_required bf \<and>
      f_editableBy cf = f_editableBy bf \<and> f_placeholder cf = f_placeholder bf)"

definition initialValue :: "BlueprintField \<Rightarrow> FieldValue" where
  "initialValue bf =
     (if f_type bf = CHECKBOX then VBoolean (f_defaultChecked bf = Some True) else VNull)"

section \<open>Reachable stores and later heap writes\<close>

text \<open>
  The states of the contract store that its operations can produce from the initial state
  \<^verbatim>\<open>contracts: []\<close>. The heap and the blueprint store a call of \<^verbatim>\<open>createContract\<close> sees
  are arbitrary.

  Modelled from the spec: \<^verbatim>\<open>generateId\<close> is not among the sources; the rule for
  \<^verbatim>\<open>createContract\<close> takes it to return an id that no stored contract has (the spec's
  "fresh stable id").
\<close>

inductive reachable :: "Contract list \<Rightarrow> bool" where
  reach_init: "reachable []"
| reach_create:
    "reachable cs \<Longrightarrow> newId \<notin> c_id ` set cs \<Longrightarrow>
     createContract now newId h blueprints cs input = (r, h', cs') \<Longrightarrow> reachable cs'"
| reach_update:
    "reachable cs \<Longrightarrow> updateContractFields now cs i updatedFields = (ok, cs') \<Longrightarrow> reachable cs'"
| reach_transition:
    "reachable cs \<Longrightarrow> transitionStatus now cs i newStatus = (ok, cs') \<Longrightarrow> reachable cs'"
| reach_delete:
    "reachable cs \<Longrightarrow> deleteContract cs i = (ok, cs') \<Longrightarrow> reachable cs'"

text \<open>
  What any later code can do to the heap: overwrite the object at an address it holds, or
  allocate a new object. A mutation of a blueprint (adding, removing, reordering or
  relabelling fields, in place or by replacing objects) is a sequence of such steps.
\<close>

datatype heapOp = Write addr obj | Alloc obj

fun applyOp :: "heap \<Rightarrow> heapOp \<Rightarrow> heap" where
  "applyOp h (Write a ob) = store h a ob"
| "applyOp h (Alloc ob) = snd (alloc h ob)"

definition applyOps :: "heap \<Rightarrow> heapOp list \<Rightarrow> heap" where
  "applyOps h ops = foldl applyOp h ops"

section \<open>Example data\<close>

text \<open>
  The blueprint of the specification's example: a TEXT field "Name" at position 0 and a
  SIGNATURE field "Sign" at position 1. The stored array lists "Sign" first.
\<close>

definition exFieldName :: BlueprintField where
  "exFieldName =
     \<lparr>f_id = ''f1'', f_type = TEXT, f_label = ''Name'', f_position = 0, f_required = True,
      f_editableBy = Some manager, f_placeholder = None, f_defaultChecked = None\<rparr>"

definition exFieldSign :: BlueprintField where
  "exFieldSign =
     \<lparr>f_id = ''f2'', f_type = SIGNATURE, f_label = ''Sign'', f_position = 1, f_required = True,
      f_editableBy = Some client, f_placeholder = None, f_defaultChecked = None\<rparr>"

definition exHeap :: heap where
  "exHeap = [BFieldObj exFieldSign, BFieldObj exFieldName, ArrayObj [0, 1]]"

definition exBlueprint :: Blueprint where
  "exBlueprint =
     \<lparr>b_id = ''bp1'', b_name = codeUnits ''NDA Template'', b_fields = 2,
      b_createdAt = ''t0'', b_updatedAt = ''t0''\<rparr>"

definition exInput :: ContractCreateInput where
  "exInput = \<lparr>i_name = codeUnits '' Vendor NDA '', i_blueprintId = ''bp1''\<rparr>"

definition exContract :: "ContractStatus \<Rightarrow> Contract" where
  "exContract st =
     \<lparr>c_id = ''c1'', c_name = codeUnits ''Vendor NDA'', c_blueprintId = ''bp1'',
      c_blueprintName = codeUnits ''NDA Template'', c_status = st, c_fields = 5,
      c_createdAt = ''t1'', c_updatedAt = ''t1''\<rparr>"

text \<open>The heap after \<^verbatim>\<open>createContract\<close> has run on \<open>exHeap\<close> for \<open>exBlueprint\<close>.\<close>

definition exHeap' :: heap where
  "exHeap' =
     [BFieldObj exFieldSign, BFieldObj exFieldName, ArrayObj [1, 0],
      CFieldObj (toContractField exFieldName), CFieldObj (toContractField exFieldSign),
      ArrayObj [3, 4]]"

text \<open>Inputs that \<^verbatim>\<open>createContract\<close> rejects: a blank name, an unknown blueprint id.\<close>

definition exBlankInput :: ContractCreateInput where
  "exBlankInput = \<lparr>i_name = codeUnits ''  '', i_blueprintId = ''bp1''\<rparr>"

definition exUnknownInput :: ContractCreateInput where
  "exUnknownInput = \<lparr>i_name = codeUnits ''Lease'', i_blueprintId = ''bp9''\<rparr>"

text \<open>
  Edits of the example blueprint after the contract exists: "Name" is relabelled in
  place, a DATE field is added in front, and then every field but "Sign" is removed.
\<close>

definition exEdits :: "heapOp list" where
  "exEdits =
     [Write 1 (BFieldObj (exFieldName\<lparr>f_label := ''Full name''\<rparr>)),
      Alloc (BFieldObj (exFieldName\<lparr>f_id := ''f3'', f_label := ''Date'', f_type := DATE, f_position := 2\<rparr>)),
      Write 2 (ArrayObj [6, 0, 1]),
      Write 2 (ArrayObj [0])]"

text \<open>
  A store for the search: the contract "Vendor NDA", a contract "Acme 2024" made from the
  blueprint "NDA Template", and an unrelated contract "Lease".
\<close>

definition exNamed :: "string \<Rightarrow> string \<Rightarrow> string \<Rightarrow> Contract" where
  "exNamed i n b =
     \<lparr>c_id = i, c_name = codeUnits n, c_blueprintId = ''bp'', c_blueprintName = codeUnits b,
      c_status = CREATED, c_fields = 5, c_createdAt = ''t1'', c_updatedAt = ''t1''\<rparr>"

definition exSearchStore :: "Contract list" where
  "exSearchStore =
     [exNamed ''c1'' ''Vendor NDA'' ''Service Terms'',
      exNamed ''c2'' ''Acme 2024'' ''NDA Template'',
      exNamed ''c3'' ''Lease'' ''Rental Terms'']"

text \<open>
  A contract named with the Greek word for "street" in capitals (omicron, delta, omicron,
  sigma), and the query that consists of the capital sigma.
\<close>

definition exGreekContract :: Contract where
  "exGreekContract =
     \<lparr>c_id = ''c4'', c_name = [927, 916, 927, 931], c_blueprintId = ''bp'',
      c_blueprintName = codeUnits ''Lease'', c_status = CREATED, c_fields = 5,
      c_createdAt = ''t1'', c_updatedAt = ''t1''\<rparr>"

definition exSigmaQuery :: jsString where
  "exSigmaQuery = [931]"

section \<open>Properties of the state machine\<close>

lemma canTransition_iff:
  "canTransition s t =
     ((s, t) \<in> {(CREATED, APPROVED), (CREATED, REVOKED),
                    (APPROVED, SENT), (APPROVED, REVOKED), (APPROVED, CREATED),
                    (SENT, SIGNED), (SENT, REVOKED),
                    (SIGNED, LOCKED)})"
  by (cases s; cases t; simp add: canTransition_def getValidTransitions_def)

lemma backward_iff:
  "backward s t =
     ((s, t) \<in> {(APPROVED, CREATED),
                    (SENT, CREATED), (SENT, APPROVED),
                    (SIGNED, CREATED), (SIGNED, APPROVED), (SIGNED, SENT),
                    (LOCKED, CREATED), (LOCKED, APPROVED), (LOCKED, SENT), (LOCKED, SIGNED)})"
  by (cases s; cases t; simp add: backward_def LIFECYCLE_STEPS_def)

text \<open>
  Claim C1. \<open>canTransition s t\<close> holds exactly for the eight pairs of the transition
  table; being a HOL function of two statuses it is defined on all 36 pairs and has no
  failing branch. It is false on every identity pair, \<open>getValidTransitions\<close> returns the
  allowed set of each status (empty for LOCKED and REVOKED), and the only allowed
  transition that goes backward in the lifecycle is APPROVED to CREATED.
\<close>

theorem C1_transition_table:
  "canTransition s t =
     ((s, t) \<in> {(CREATED, APPROVED), (CREATED, REVOKED),
                    (APPROVED, SENT), (APPROVED, REVOKED), (APPROVED, CREATED),
                    (SENT, SIGNED), (SENT, REVOKED),
                    (SIGNED, LOCKED)})
   \<and> canTransition s t = (t \<in> set (getValidTransitions s))
   \<and> canTransition u u = False
   \<and> canTransition LOCKED t = False
   \<and> canTransition REVOKED t = False
   \<and> set (getValidTransitions CREATED) = {APPROVED, REVOKED}
   \<and> set (getValidTransitions APPROVED) = {SENT, REVOKED, CREATED}
   \<and> set (getValidTransitions SENT) = {SIGNED, REVOKED}
   \<and> set (getValidTransitions SIGNED) = {LOCKED}
   \<and> getValidTransitions LOCKED = []
   \<and> getValidTransitions REVOKED = []
   \<and> (canTransition s t \<and> backward s t) = (s = APPROVED \<and> t = CREATED)"
proof -
  have self: "canTransition u u = False"
    by (cases u) (simp_all add: canTransition_iff)
  have mem: "canTransition s t = (t \<in> set (getValidTransitions s))"
    by (simp add: canTransition_def)
  have bwd: "(canTransition s t \<and> backward s t) = (s = APPROVED \<and> t = CREATED)"
    by (cases s; cases t; simp add: canTransition_iff backward_iff)
  show ?thesis
    using self mem bwd
    by (simp add: canTransition_iff getValidTransitions_def insert_commute)
qed

section \<open>Properties of the contract store\<close>

lemma getContract_None: "(getContract cs i = None) = (i \<notin> c_id ` set cs)"
  by (auto simp: getContract_def find_None_iff)

lemma getContract_Some: "getContract cs i = Some c \<Longrightarrow> c \<in> set cs \<and> c_id c = i"
  by (auto simp: getContract_def find_Some_iff)

lemma getContract_distinct:
  "distinct (map c_id cs) \<Longrightarrow> c \<in> set cs \<Longrightarrow> getContract cs (c_id c) = Some c"
  unfolding getContract_def
  by (induction cs) (auto simp: image_iff)

lemma getContract_map_hit:
  "getContract cs i = Some c \<Longrightarrow>
   getContract (map (\<lambda>d. if c_id d = i then g d else d) cs) i = Some (g c)"
  if "\<And>d. c_id (g d) = c_id d"
  using that unfolding getContract_def
  by (induction cs) (auto split: if_splits)

lemma getContract_map_miss:
  "j \<noteq> i \<Longrightarrow> (\<And>d. c_id (g d) = c_id d) \<Longrightarrow>
   getContract (map (\<lambda>d. if c_id d = i then g d else d) cs) j = getContract cs j"
  unfolding getContract_def
  by (induction cs) (auto split: if_splits)

text \<open>
  Claim C4. \<open>transitionStatus\<close> returns \<open>False\<close> with the store unchanged when no stored
  contract has the id, and when \<open>canTransition\<close> rejects the move from the current status.
  Otherwise it returns \<open>True\<close>, the contract found under the id has the new status and the
  current timestamp as \<open>updatedAt\<close> and is otherwise as before, and the contracts with
  another id are as before. The result is always a pair of a boolean and a store: no
  branch fails.
\<close>

theorem C4_transitionStatus:
  "(i \<notin> c_id ` set cs \<longrightarrow> transitionStatus now cs i newStatus = (False, cs))
   \<and> (\<forall>c. getContract cs i = Some c \<and> \<not> canTransition (c_status c) newStatus
          \<longrightarrow> transitionStatus now cs i newStatus = (False, cs))
   \<and> (\<forall>c. getContract cs i = Some c \<and> canTransition (c_status c) newStatus
          \<longrightarrow> (\<exists>cs'. transitionStatus now cs i newStatus = (True, cs')
                 \<and> getContract cs' i = Some (c\<lparr>c_status := newStatus, c_updatedAt := now\<rparr>)
                 \<and> (\<forall>j. j \<noteq> i \<longrightarrow> getContract cs' j = getContract cs j)
                 \<and> map c_id cs' = map c_id cs))"
proof (intro conjI allI impI)
  assume "i \<notin> c_id ` set cs"
  then have "getContract cs i = None" by (simp add: getContract_None)
  then show "transitionStatus now cs i newStatus = (False, cs)"
    by (simp add: transitionStatus_def)
next
  fix c assume "getContract cs i = Some c \<and> \<not> canTransition (c_status c) newStatus"
  then show "transitionStatus now cs i newStatus = (False, cs)"
    by (simp add: transitionStatus_def)
next
  fix c assume a: "getContract cs i = Some c \<and> canTransition (c_status c) newStatus"
  let ?g = "\<lambda>d. d\<lparr>c_status := newStatus, c_updatedAt := now\<rparr>"
  let ?cs' = "map (\<lambda>d. if c_id d = i then ?g d else d) cs"
  have run: "transitionStatus now cs i newStatus = (True, ?cs')"
    using a by (simp add: transitionStatus_def)
  have hit: "getContract ?cs' i = Some (?g c)"
    using a by (intro getContract_map_hit) simp_all
  have miss: "\<forall>j. j \<noteq> i \<longrightarrow> getContract ?cs' j = getContract cs j"
    by (intro allI impI getContract_map_miss) simp_all
  have ids: "map c_id ?cs' = map c_id cs"
    by (induction cs) simp_all
  show "\<exists>cs'. transitionStatus now cs i newStatus = (True, cs')
                 \<and> getContract cs' i = Some (c\<lparr>c_status := newStatus, c_updatedAt := now\<rparr>)
                 \<and> (\<forall>j. j \<noteq> i \<longrightarrow> getContract cs' j = getContract cs j)
                 \<and> map c_id cs' = map c_id cs"
    using run hit miss ids by blast
qed

theorem C4_transitionStatus_witness:
  "''zz'' \<notin> c_id ` set [exContract APPROVED]
   \<and> transitionStatus ''t2'' [exContract APPROVED] ''zz'' LOCKED = (False, [exContract APPROVED])
   \<and> getContract [exContract APPROVED] ''c1'' = Some (exContract APPROVED)
   \<and> \<not> canTransition (c_status (exContract APPROVED)) LOCKED
   \<and> transitionStatus ''t2'' [exContract APPROVED] ''c1'' LOCKED = (False, [exContract APPROVED])
   \<and> getContract [exContract SIGNED] ''c1'' = Some (exContract SIGNED)
   \<and> canTransition (c_status (exContract SIGNED)) LOCKED
   \<and> (\<exists>cs'. transitionStatus ''t2'' [exContract SIGNED] ''c1'' LOCKED = (True, cs')
         \<and> getContract cs' ''c1'' =
             Some ((exContract SIGNED)\<lparr>c_status := LOCKED, c_updatedAt := ''t2''\<rparr>))"
proof -
  have h1: "''zz'' \<notin> c_id ` set [exContract APPROVED]"
    by (simp add: exContract_def)
  have h2: "getContract [exContract APPROVED] ''c1'' = Some (exContract APPROVED)"
    by (simp add: getContract_def exContract_def)
  have h3: "\<not> canTransition (c_status (exContract APPROVED)) LOCKED"
    by (simp add: canTransition_iff exContract_def)
  have h4: "getContract [exContract SIGNED] ''c1'' = Some (exContract SIGNED)"
    by (simp add: getContract_def exContract_def)
  have h5: "canTransition (c_status (exContract SIGNED)) LOCKED"
    by (simp add: canTransition_iff exContract_def)
  have r1: "transitionStatus ''t2'' [exContract APPROVED] ''zz'' LOCKED
              = (False, [exContract APPROVED])"
    using C4_transitionStatus [where i = "''zz''" and cs = "[exContract APPROVED]"
        and now = "''t2''" and newStatus = LOCKED] h1 by blast
  have r2: "transitionStatus ''t2'' [exContract APPROVED] ''c1'' LOCKED
              = (False, [exContract APPROVED])"
    using C4_transitionStatus [where i = "''c1''" and cs = "[exContract APPROVED]"
        and now = "''t2''" and newStatus = LOCKED] h2 h3 by blast
  have r3: "\<exists>cs'. transitionStatus ''t2'' [exContract SIGNED] ''c1'' LOCKED = (True, cs')
         \<and> getContract cs' ''c1'' =
             Some ((exContract SIGNED)\<lparr>c_status := LOCKED, c_updatedAt := ''t2''\<rparr>)"
    using C4_transitionStatus [where i = "''c1''" and cs = "[exContract SIGNED]"
        and now = "''t2''" and newStatus = LOCKED] h4 h5 by blast
  show ?thesis using h1 h2 h3 h4 h5 r1 r2 r3 by blast
qed

text \<open>
  Claim C5. \<open>updateContractFields\<close> returns \<open>False\<close> with the store unchanged (so the
  contract's fields too) when no stored contract has the id, and when the status of the
  contract found is neither CREATED nor SENT. Otherwise it returns \<open>True\<close>, the contract has
  the given array as its \<open>fields\<close> and the current timestamp as \<open>updatedAt\<close> and is
  otherwise as before, so that its fields read what the given array holds, and the
  contracts with another id are as before.
\<close>

theorem C5_updateContractFields:
  "(i \<notin> c_id ` set cs \<longrightarrow> updateContractFields now cs i fs = (False, cs))
   \<and> (\<forall>c. getContract cs i = Some c \<and> c_status c \<noteq> CREATED \<and> c_status c \<noteq> SENT
          \<longrightarrow> updateContractFields now cs i fs = (False, cs))
   \<and> (\<forall>c. getContract cs i = Some c \<and> (c_status c = CREATED \<or> c_status c = SENT)
          \<longrightarrow> (\<exists>cs'. updateContractFields now cs i fs = (True, cs')
                 \<and> getContract cs' i = Some (c\<lparr>c_fields := fs, c_updatedAt := now\<rparr>)
                 \<and> contractFields h (c\<lparr>c_fields := fs, c_updatedAt := now\<rparr>)
                       = map (cfieldAt h) (arrayAt h fs)
                 \<and> (\<forall>j. j \<noteq> i \<longrightarrow> getContract cs' j = getContract cs j)
                 \<and> map c_id cs' = map c_id cs))"
proof (intro conjI allI impI)
  assume "i \<notin> c_id ` set cs"
  then have "getContract cs i = None" by (simp add: getContract_None)
  then show "updateContractFields now cs i fs = (False, cs)"
    by (simp add: updateContractFields_def)
next
  fix c assume "getContract cs i = Some c \<and> c_status c \<noteq> CREATED \<and> c_status c \<noteq> SENT"
  then show "updateContractFields now cs i fs = (False, cs)"
    by (simp add: updateContractFields_def)
next
  fix c assume a: "getContract cs i = Some c \<and> (c_status c = CREATED \<or> c_status c = SENT)"
  let ?g = "\<lambda>d. d\<lparr>c_fields := fs, c_updatedAt := now\<rparr>"
  let ?cs' = "map (\<lambda>d. if c_id d = i then ?g d else d) cs"
  have run: "updateContractFields now cs i fs = (True, ?cs')"
    using a by (auto simp add: updateContractFields_def)
  have hit: "getContract ?cs' i = Some (?g c)"
    using a by (intro getContract_map_hit) simp_all
  have miss: "\<forall>j. j \<noteq> i \<longrightarrow> getContract ?cs' j = getContract cs j"
    by (intro allI impI getContract_map_miss) simp_all
  have ids: "map c_id ?cs' = map c_id cs"
    by (induction cs) simp_all
  have contents: "contractFields h (c\<lparr>c_fields := fs, c_updatedAt := now\<rparr>)
                       = map (cfieldAt h) (arrayAt h fs)"
    by (simp add: contractFields_def)
  show "\<exists>cs'. updateContractFields now cs i fs = (True, cs')
                 \<and> getContract cs' i = Some (c\<lparr>c_fields := fs, c_updatedAt := now\<rparr>)
                 \<and> contractFields h (c\<lparr>c_fields := fs, c_updatedAt := now\<rparr>)
                       = map (cfieldAt h) (arrayAt h fs)
                 \<and> (\<forall>j. j \<noteq> i \<longrightarrow> getContract cs' j = getContract cs j)
                 \<and> map c_id cs' = map c_id cs"
    using run hit miss ids contents by blast
qed

theorem C5_updateContractFields_witness:
  "''zz'' \<notin> c_id ` set [exContract SIGNED]
   \<and> updateContractFields ''t2'' [exContract SIGNED] ''zz'' 7 = (False, [exContract SIGNED])
   \<and> getContract [exContract SIGNED] ''c1'' = Some (exContract SIGNED)
   \<and> c_status (exContract SIGNED) \<noteq> CREATED \<and> c_status (exContract SIGNED) \<noteq> SENT
   \<and> updateContractFields ''t2'' [exContract SIGNED] ''c1'' 7 = (False, [exContract SIGNED])
   \<and> getContract [exContract SENT] ''c1'' = Some (exContract SENT)
   \<and> (c_status (exContract SENT) = CREATED \<or> c_status (exContract SENT) = SENT)
   \<and> (\<exists>cs'. updateContractFields ''t2'' [exContract SENT] ''c1'' 7 = (True, cs')
         \<and> getContract cs' ''c1'' =
             Some ((exContract SENT)\<lparr>c_fields := 7, c_updatedAt := ''t2''\<rparr>))"
proof -
  have h1: "''zz'' \<notin> c_id ` set [exContract SIGNED]"
    by (simp add: exContract_def)
  have h2: "getContract [exContract SIGNED] ''c1'' = Some (exContract SIGNED)"
    by (simp add: getContract_def exContract_def)
  have h3: "c_status (exContract SIGNED) \<noteq> CREATED \<and> c_status (exContract SIGNED) \<noteq> SENT"
    by (simp add: exContract_def)
  have h4: "getContract [exContract SENT] ''c1'' = Some (exContract SENT)"
    by (simp add: getContract_def exContract_def)
  have h5: "c_status (exContract SENT) = CREATED \<or> c_status (exContract SENT) = SENT"
    by (simp add: exContract_def)
  have r1: "updateContractFields ''t2'' [exContract SIGNED] ''zz'' 7 = (False, [exContract SIGNED])"
    using C5_updateContractFields [where i = "''zz''" and cs = "[exContract SIGNED]"
        and now = "''t2''" and fs = 7 and h = exHeap'] h1 by blast
  have r2: "updateContractFields ''t2'' [exContract SIGNED] ''c1'' 7 = (False, [exContract SIGNED])"
    using C5_updateContractFields [where i = "''c1''" and cs = "[exContract SIGNED]"
        and now = "''t2''" and fs = 7 and h = exHeap'] h2 h3 by blast
  have r3: "\<exists>cs'. updateContractFields ''t2'' [exContract SENT] ''c1'' 7 = (True, cs')
         \<and> getContract cs' ''c1'' =
             Some ((exContract SENT)\<lparr>c_fields := 7, c_updatedAt := ''t2''\<rparr>)"
    using C5_updateContractFields [where i = "''c1''" and cs = "[exContract SENT]"
        and now = "''t2''" and fs = 7 and h = exHeap'] h4 h5 by blast
  show ?thesis using h1 h2 h3 h4 h5 r1 r2 r3 by blast
qed

lemma filter_other_keys:
  "distinct (map f xs) \<Longrightarrow> x \<in> set xs \<Longrightarrow> filter (\<lambda>y. f y \<noteq> f x) xs = remove1 x xs"
proof (induction xs)
  case Nil
  then show ?case by simp
next
  case (Cons a xs)
  show ?case
  proof (cases "a = x")
    case True
    have "\<forall>y\<in>set xs. f y \<noteq> f x"
      using Cons.prems(1) True by (force simp: image_iff)
    then have "filter (\<lambda>y. f y \<noteq> f x) xs = xs"
      by (simp add: filter_id_conv)
    then show ?thesis using True by simp
  next
    case False
    then have x: "x \<in> set xs" using Cons.prems(2) by simp
    then have "f a \<noteq> f x" using Cons.prems(1) by (force simp: image_iff)
    moreover have "filter (\<lambda>y. f y \<noteq> f x) xs = remove1 x xs"
      using Cons.IH Cons.prems(1) x by simp
    ultimately show ?thesis using False by simp
  qed
qed

text \<open>
  Claim C8. When some stored contract has the id, \<open>deleteContract\<close> returns \<open>True\<close> and the
  store keeps, in order, exactly the contracts with another id; when ids are distinct that
  is the store without the one contract. When no stored contract has the id it returns
  \<open>False\<close> and the store is unchanged. No status is consulted, so the deletion succeeds
  from every status.
\<close>

theorem C8_deleteContract:
  "(i \<in> c_id ` set cs \<longrightarrow>
      deleteContract cs i = (True, filter (\<lambda>c. c_id c \<noteq> i) cs)
      \<and> set (snd (deleteContract cs i)) = {c \<in> set cs. c_id c \<noteq> i})
   \<and> (i \<notin> c_id ` set cs \<longrightarrow> deleteContract cs i = (False, cs))
   \<and> (\<forall>c. c \<in> set cs \<and> distinct (map c_id cs) \<longrightarrow>
         deleteContract cs (c_id c) = (True, remove1 c cs))"
proof (intro conjI allI impI)
  assume "i \<in> c_id ` set cs"
  then show "deleteContract cs i = (True, filter (\<lambda>c. c_id c \<noteq> i) cs)"
    by (auto simp: deleteContract_def list_ex_iff Let_def)
  then show "set (snd (deleteContract cs i)) = {c \<in> set cs. c_id c \<noteq> i}"
    by simp
next
  assume "i \<notin> c_id ` set cs"
  then show "deleteContract cs i = (False, cs)"
    by (auto simp: deleteContract_def list_ex_iff Let_def)
next
  fix c assume a: "c \<in> set cs \<and> distinct (map c_id cs)"
  then have f: "filter (\<lambda>d. c_id d \<noteq> c_id c) cs = remove1 c cs"
    by (simp add: filter_other_keys)
  have "list_ex (\<lambda>d. c_id d = c_id c) cs"
    using a by (auto simp: list_ex_iff)
  then have "deleteContract cs (c_id c) = (True, filter (\<lambda>d. c_id d \<noteq> c_id c) cs)"
    by (simp add: deleteContract_def Let_def)
  then show "deleteContract cs (c_id c) = (True, remove1 c cs)"
    by (simp only: f)
qed

theorem C8_deleteContract_witness:
  "''c1'' \<in> c_id ` set [exContract LOCKED]
   \<and> deleteContract [exContract LOCKED] ''c1'' = (True, [])
   \<and> ''zz'' \<notin> c_id ` set [exContract LOCKED]
   \<and> deleteContract [exContract LOCKED] ''zz'' = (False, [exContract LOCKED])
   \<and> exContract REVOKED \<in> set [exContract REVOKED]
   \<and> distinct (map c_id [exContract REVOKED])
   \<and> deleteContract [exContract REVOKED] (c_id (exContract REVOKED)) = (True, [])"
proof -
  have h1: "''c1'' \<in> c_id ` set [exContract LOCKED]"
    by (simp add: exContract_def)
  have h2: "''zz'' \<notin> c_id ` set [exContract LOCKED]"
    by (simp add: exContract_def)
  have h3: "exContract REVOKED \<in> set [exContract REVOKED] \<and> distinct (map c_id [exContract REVOKED])"
    by simp
  have r1: "deleteContract [exContract LOCKED] ''c1''
              = (True, filter (\<lambda>c. c_id c \<noteq> ''c1'') [exContract LOCKED])"
    using C8_deleteContract [where i = "''c1''" and cs = "[exContract LOCKED]"] h1 by blast
  have r2: "deleteContract [exContract LOCKED] ''zz'' = (False, [exContract LOCKED])"
    using C8_deleteContract [where i = "''zz''" and cs = "[exContract LOCKED]"] h2 by blast
  have r3: "deleteContract [exContract REVOKED] (c_id (exContract REVOKED))
              = (True, remove1 (exContract REVOKED) [exContract REVOKED])"
    using C8_deleteContract [where i = "''c1''" and cs = "[exContract REVOKED]"] h3 by blast
  have f: "filter (\<lambda>c. c_id c \<noteq> ''c1'') [exContract LOCKED] = []"
    by (simp add: exContract_def)
  show ?thesis using h1 h2 h3 r1 r2 r3 f by simp
qed

section \<open>Properties of the dashboard projection\<close>

lemma UNIV_status: "(UNIV :: ContractStatus set) = {CREATED, APPROVED, SENT, SIGNED, LOCKED, REVOKED}"
  by (auto intro: ContractStatus.exhaust)

lemma UNIV_filter: "(UNIV :: DashboardFilter set) = {Active, Pending, Signed, Archived}"
  by (auto intro: DashboardFilter.exhaust)

lemma bucketOf_iff: "(s \<in> set (getStatusesForFilter flt)) = (flt = bucketOf s)"
  by (cases s; cases flt; simp)

text \<open>
  Claim C7. The four filters have the sets of statuses the specification lists; every
  status lies in the set of exactly one filter, so the four lists together hold each of
  the six statuses once. \<open>getContractsByFilter\<close> returns, in store order, exactly the stored
  contracts whose status lies in the set of the filter, so every stored contract is
  returned for exactly one filter.
\<close>

theorem C7_filters:
  "set (getStatusesForFilter Active) = {CREATED, APPROVED}
   \<and> set (getStatusesForFilter Pending) = {SENT}
   \<and> set (getStatusesForFilter Signed) = {SIGNED, LOCKED}
   \<and> set (getStatusesForFilter Archived) = {REVOKED}
   \<and> (\<exists>!flt. s \<in> set (getStatusesForFilter flt))
   \<and> distinct (concat (map getStatusesForFilter [Active, Pending, Signed, Archived]))
   \<and> set (concat (map getStatusesForFilter [Active, Pending, Signed, Archived])) = UNIV
   \<and> getContractsByFilter cs flt
         = filter (\<lambda>c. c_status c \<in> set (getStatusesForFilter flt)) cs
   \<and> (c \<in> set cs \<longrightarrow> (\<exists>!g. c \<in> set (getContractsByFilter cs g)))"
proof -
  have one: "\<exists>!flt. s \<in> set (getStatusesForFilter flt)"
    by (simp add: bucketOf_iff)
  have byFilter: "getContractsByFilter cs g
         = filter (\<lambda>c. c_status c \<in> set (getStatusesForFilter g)) cs" for g
    by (simp add: getContractsByFilter_def Let_def)
  have each: "c \<in> set cs \<longrightarrow> (\<exists>!g. c \<in> set (getContractsByFilter cs g))"
    by (simp add: byFilter bucketOf_iff)
  have all: "set (concat (map getStatusesForFilter [Active, Pending, Signed, Archived])) = UNIV"
    by (auto simp: UNIV_status)
  show ?thesis
    using one each all byFilter [of flt] by simp
qed

theorem C7_filters_witness:
  "exContract LOCKED \<in> set [exContract CREATED, exContract LOCKED]
   \<and> (\<exists>!g. exContract LOCKED \<in> set (getContractsByFilter [exContract CREATED, exContract LOCKED] g))
   \<and> getContractsByFilter [exContract CREATED, exContract LOCKED] Signed = [exContract LOCKED]"
proof -
  have h: "exContract LOCKED \<in> set [exContract CREATED, exContract LOCKED]"
    by simp
  have r: "\<exists>!g. exContract LOCKED \<in> set (getContractsByFilter [exContract CREATED, exContract LOCKED] g)"
    using C7_filters [where c = "exContract LOCKED" and s = LOCKED and flt = Signed
        and cs = "[exContract CREATED, exContract LOCKED]"] h
    by - (elim conjE impE, assumption+)
  have e: "getContractsByFilter [exContract CREATED, exContract LOCKED] Signed = [exContract LOCKED]"
    by (simp add: getContractsByFilter_def exContract_def)
  show ?thesis using h r e by (intro conjI)
qed

section \<open>Properties of the search\<close>

lemma startsWith_iff: "startsWith s q = (\<exists>after. s = q @ after)"
  by (induction s q rule: startsWith.induct) auto

lemma includesString_iff: "includesString s q = (\<exists>before after. s = before @ q @ after)"
proof (induction s)
  case Nil
  show ?case by (cases q) auto
next
  case (Cons c cs)
  show ?case
  proof
    assume "includesString (c # cs) q"
    then consider "startsWith (c # cs) q" | "includesString cs q" by auto
    then show "\<exists>before after. c # cs = before @ q @ after"
    proof cases
      case 1
      then obtain after where "c # cs = q @ after" using startsWith_iff by blast
      then have "c # cs = [] @ q @ after" by simp
      then show ?thesis by blast
    next
      case 2
      then obtain before after where "cs = before @ q @ after" using Cons.IH by blast
      then have "c # cs = (c # before) @ q @ after" by simp
      then show ?thesis by blast
    qed
  next
    assume "\<exists>before after. c # cs = before @ q @ after"
    then obtain before after where e: "c # cs = before @ q @ after" by blast
    show "includesString (c # cs) q"
    proof (cases before)
      case Nil
      then have "startsWith (c # cs) q" using e startsWith_iff by fastforce
      then show ?thesis by simp
    next
      case (Cons b bs)
      then have "cs = bs @ q @ after" using e by simp
      then have "includesString cs q" using Cons.IH by blast
      then show ?thesis by simp
    qed
  qed
qed

lemma lowerFrom_no_sigma:
  "931 \<notin> set s \<Longrightarrow> 304 \<notin> set s \<Longrightarrow> lowerFrom before s = map lowerUnit s"
  by (induction s arbitrary: before) simp_all

lemma toLowerCase_latin1: "isLatin1 s \<Longrightarrow> toLowerCase s = map lowerUnit s"
proof -
  assume "isLatin1 s"
  then have "931 \<notin> set s" and "304 \<notin> set s" by (auto simp: isLatin1_def list_all_iff)
  then show ?thesis by (simp add: toLowerCase_def lowerFrom_no_sigma)
qed

lemma in_zip_upt:
  assumes "m' = m + k" and "n' = n + k"
  shows "((a, b) \<in> set (zip [m ..< n] [m' ..< n'])) = (m \<le> a \<and> a < n \<and> b = a + k)"
proof
  assume "(a, b) \<in> set (zip [m ..< n] [m' ..< n'])"
  then obtain i where i: "i < n - m" and a: "[m ..< n] ! i = a" and b: "[m' ..< n'] ! i = b"
    by (auto simp: in_set_zip)
  then show "m \<le> a \<and> a < n \<and> b = a + k" using assms by auto
next
  assume h: "m \<le> a \<and> a < n \<and> b = a + k"
  then have "a - m < n - m" and "[m ..< n] ! (a - m) = a" and "[m' ..< n'] ! (a - m) = b"
    using assms by auto
  then show "(a, b) \<in> set (zip [m ..< n] [m' ..< n'])"
    unfolding in_set_zip using assms by (intro exI [of _ "a - m"]) auto
qed

lemma casePairs_iff:
  "((a, b) \<in> set casePairs) =
     (((65 \<le> a \<and> a \<le> 90) \<or> (192 \<le> a \<and> a \<le> 214) \<or> (216 \<le> a \<and> a \<le> 222)
        \<or> (913 \<le> a \<and> a \<le> 929) \<or> (932 \<le> a \<and> a \<le> 937)) \<and> b = a + 32
      \<or> (a = 931 \<and> b = 963) \<or> (a = 931 \<and> b = 962) \<or> (a = 963 \<and> b = 962))"
proof -
  have 1: "((a, b) \<in> set (zip [65 ..< 91] [97 ..< 123])) = (65 \<le> a \<and> a < 91 \<and> b = a + 32)"
    by (rule in_zip_upt) simp_all
  have 2: "((a, b) \<in> set (zip [192 ..< 215] [224 ..< 247])) = (192 \<le> a \<and> a < 215 \<and> b = a + 32)"
    by (rule in_zip_upt) simp_all
  have 3: "((a, b) \<in> set (zip [216 ..< 223] [248 ..< 255])) = (216 \<le> a \<and> a < 223 \<and> b = a + 32)"
    by (rule in_zip_upt) simp_all
  have 4: "((a, b) \<in> set (zip [913 ..< 930] [945 ..< 962])) = (913 \<le> a \<and> a < 930 \<and> b = a + 32)"
    by (rule in_zip_upt) simp_all
  have 5: "((a, b) \<in> set (zip [932 ..< 938] [964 ..< 970])) = (932 \<le> a \<and> a < 938 \<and> b = a + 32)"
    by (rule in_zip_upt) simp_all
  have l: "((a, b) \<in> set [(931, 963), (931, 962), (963, 962 :: nat)])
         = ((a = 931 \<and> b = 963) \<or> (a = 931 \<and> b = 962) \<or> (a = 963 \<and> b = 962))"
    by simp
  have m: "((a, b) \<in> set casePairs) =
     ((65 \<le> a \<and> a < 91 \<and> b = a + 32) \<or> (192 \<le> a \<and> a < 215 \<and> b = a + 32)
      \<or> (216 \<le> a \<and> a < 223 \<and> b = a + 32) \<or> (913 \<le> a \<and> a < 930 \<and> b = a + 32)
      \<or> (932 \<le> a \<and> a < 938 \<and> b = a + 32)
      \<or> (a = 931 \<and> b = 963) \<or> (a = 931 \<and> b = 962) \<or> (a = 963 \<and> b = 962))"
    by (simp only: casePairs_def set_append Un_iff 1 2 3 4 5 l)
  have r: "(a < 91) = (a \<le> 90)" "(a < 215) = (a \<le> 214)" "(a < 223) = (a \<le> 222)"
    "(a < 930) = (a \<le> 929)" "(a < 938) = (a \<le> 937)"
    by auto
  show ?thesis
    unfolding m r by blast
qed

lemma lowerUnit_same:
  assumes "a < 256" and "b < 256"
  shows "(lowerUnit a = lowerUnit b) = sameIgnoringCase a b"
proof -
  define up where "up = (\<lambda>c::nat. (65 \<le> c \<and> c \<le> 90) \<or> (192 \<le> c \<and> c \<le> 214) \<or> (216 \<le> c \<and> c \<le> 222))"
  have la: "lowerUnit a = (if up a then a + 32 else a)"
    using assms(1) unfolding lowerUnit_def up_def by auto
  have lb: "lowerUnit b = (if up b then b + 32 else b)"
    using assms(2) unfolding lowerUnit_def up_def by auto
  have pa: "((a, b) \<in> set casePairs) = (up a \<and> b = a + 32)"
    using assms unfolding casePairs_iff up_def by auto
  have pb: "((b, a) \<in> set casePairs) = (up b \<and> a = b + 32)"
    using assms unfolding casePairs_iff up_def by auto
  have nu: "up a \<Longrightarrow> \<not> up (a + 32)" and nv: "up b \<Longrightarrow> \<not> up (b + 32)"
    unfolding up_def by auto
  show ?thesis
    unfolding sameIgnoringCase_def la lb pa pb
    using nu nv by (cases "up a"; cases "up b") auto
qed


lemma map_eq_iff_list_all2: "(map f q = map f m) = list_all2 (\<lambda>x y. f x = f y) q m"
proof -
  have "(map f q = map f m) = list_all2 (=) (map f q) (map f m)"
    by (simp add: list_all2_eq)
  then show ?thesis
    by (simp add: list_all2_map1 list_all2_map2)
qed

lemma list_all2_same_latin1:
  assumes "isLatin1 q" and "isLatin1 m"
  shows "list_all2 (\<lambda>x y. lowerUnit x = lowerUnit y) q m = list_all2 sameIgnoringCase q m"
proof
  assume "list_all2 (\<lambda>x y. lowerUnit x = lowerUnit y) q m"
  then show "list_all2 sameIgnoringCase q m"
  proof (rule list.rel_mono_strong)
    fix x y assume "x \<in> set q" and "y \<in> set m" and "lowerUnit x = lowerUnit y"
    then show "sameIgnoringCase x y"
      using assms lowerUnit_same [of x y] by (simp add: isLatin1_def list_all_iff)
  qed
next
  assume "list_all2 sameIgnoringCase q m"
  then show "list_all2 (\<lambda>x y. lowerUnit x = lowerUnit y) q m"
  proof (rule list.rel_mono_strong)
    fix x y assume "x \<in> set q" and "y \<in> set m" and "sameIgnoringCase x y"
    then show "lowerUnit x = lowerUnit y"
      using assms lowerUnit_same [of x y] by (simp add: isLatin1_def list_all_iff)
  qed
qed

lemma isLatin1_append: "isLatin1 (xs @ ys) = (isLatin1 xs \<and> isLatin1 ys)"
  by (simp add: isLatin1_def)

lemma includes_lowered_latin1:
  assumes "isLatin1 q" and "isLatin1 s"
  shows "includesString (toLowerCase s) (toLowerCase q) = caseInsensitiveSubstring q s"
proof
  assume "includesString (toLowerCase s) (toLowerCase q)"
  then obtain xs zs where e: "map lowerUnit s = xs @ map lowerUnit q @ zs"
    using assms by (auto simp: includesString_iff toLowerCase_latin1)
  obtain before rest where s1: "s = before @ rest"
    and r: "map lowerUnit rest = map lowerUnit q @ zs"
    using e by (metis map_eq_append_conv)
  obtain mid after where s2: "rest = mid @ after"
    and m: "map lowerUnit mid = map lowerUnit q"
    using r by (metis map_eq_append_conv)
  have "isLatin1 mid" using assms(2) s1 s2 by (simp add: isLatin1_append)
  moreover have "list_all2 (\<lambda>x y. lowerUnit x = lowerUnit y) q mid"
    using m by (simp add: map_eq_iff_list_all2 [symmetric])
  ultimately have "list_all2 sameIgnoringCase q mid"
    using assms(1) by (simp add: list_all2_same_latin1)
  then show "caseInsensitiveSubstring q s"
    unfolding caseInsensitiveSubstring_def using s1 s2 by blast
next
  assume "caseInsensitiveSubstring q s"
  then obtain before mid after where s: "s = before @ mid @ after"
    and l: "list_all2 sameIgnoringCase q mid"
    unfolding caseInsensitiveSubstring_def by blast
  have "isLatin1 mid" using assms(2) s by (simp add: isLatin1_append)
  then have "map lowerUnit q = map lowerUnit mid"
    using l assms(1) by (simp add: map_eq_iff_list_all2 list_all2_same_latin1)
  then have "map lowerUnit s = map lowerUnit before @ map lowerUnit q @ map lowerUnit after"
    using s by simp
  then show "includesString (toLowerCase s) (toLowerCase q)"
    using assms unfolding includesString_iff toLowerCase_latin1 [OF assms(1)]
      toLowerCase_latin1 [OF assms(2)] by blast
qed

text \<open>
  Claim C9, as the code has it. For every query, \<open>searchContracts\<close> returns, in store
  order, exactly the stored contracts for which the lower-cased query occurs in the
  lower-cased name or in the lower-cased blueprint name. When the query and the names
  consist of code units below 256 (ASCII and Latin-1), these are exactly the contracts of
  which the query is a case-insensitive substring of the name or of the blueprint name.
\<close>

theorem C9_searchContracts:
  "searchContracts cs query =
     filter (\<lambda>c. isSubstringOf (toLowerCase query) (toLowerCase (c_name c)) \<or>
                 isSubstringOf (toLowerCase query) (toLowerCase (c_blueprintName c))) cs
   \<and> (isLatin1 query \<and> (\<forall>c\<in>set cs. isLatin1 (c_name c) \<and> isLatin1 (c_blueprintName c))
        \<longrightarrow> searchContracts cs query =
              filter (\<lambda>c. caseInsensitiveSubstring query (c_name c) \<or>
                          caseInsensitiveSubstring query (c_blueprintName c)) cs)"
proof (intro conjI impI)
  show "searchContracts cs query =
     filter (\<lambda>c. isSubstringOf (toLowerCase query) (toLowerCase (c_name c)) \<or>
                 isSubstringOf (toLowerCase query) (toLowerCase (c_blueprintName c))) cs"
    by (simp add: searchContracts_def isSubstringOf_def Let_def includesString_iff)
next
  assume a: "isLatin1 query \<and> (\<forall>c\<in>set cs. isLatin1 (c_name c) \<and> isLatin1 (c_blueprintName c))"
  have "\<forall>c\<in>set cs.
          (includesString (toLowerCase (c_name c)) (toLowerCase query) \<or>
           includesString (toLowerCase (c_blueprintName c)) (toLowerCase query))
        = (caseInsensitiveSubstring query (c_name c) \<or>
           caseInsensitiveSubstring query (c_blueprintName c))"
    using a by (simp add: includes_lowered_latin1)
  then show "searchContracts cs query =
              filter (\<lambda>c. caseInsensitiveSubstring query (c_name c) \<or>
                          caseInsensitiveSubstring query (c_blueprintName c)) cs"
    unfolding searchContracts_def Let_def by (intro filter_cong) simp_all
qed

lemma ex_search: "searchContracts exSearchStore (codeUnits ''nda'')
     = [exNamed ''c1'' ''Vendor NDA'' ''Service Terms'', exNamed ''c2'' ''Acme 2024'' ''NDA Template'']"
  by (simp add: searchContracts_def exSearchStore_def exNamed_def codeUnits_def toLowerCase_def
      lowerUnit_def Let_def)

lemma isLatin1_codeUnits: "isLatin1 (codeUnits s)"
proof -
  have "\<forall>c. (of_char c :: nat) < 256"
    by (simp add: of_char_def) 
  then show ?thesis by (simp add: isLatin1_def codeUnits_def list_all_iff)
qed

theorem C9_searchContracts_witness:
  "isLatin1 (codeUnits ''nda'')
   \<and> list_all (\<lambda>c. isLatin1 (c_name c) \<and> isLatin1 (c_blueprintName c)) exSearchStore
   \<and> searchContracts exSearchStore (codeUnits ''nda'')
       = [exNamed ''c1'' ''Vendor NDA'' ''Service Terms'', exNamed ''c2'' ''Acme 2024'' ''NDA Template'']
   \<and> filter (\<lambda>c. caseInsensitiveSubstring (codeUnits ''nda'') (c_name c) \<or>
                 caseInsensitiveSubstring (codeUnits ''nda'') (c_blueprintName c)) exSearchStore
       = [exNamed ''c1'' ''Vendor NDA'' ''Service Terms'', exNamed ''c2'' ''Acme 2024'' ''NDA Template'']"
proof -
  have q: "isLatin1 (codeUnits ''nda'')" by (rule isLatin1_codeUnits)
  have s: "list_all (\<lambda>c. isLatin1 (c_name c) \<and> isLatin1 (c_blueprintName c)) exSearchStore"
    by (simp add: exSearchStore_def exNamed_def isLatin1_codeUnits)
  then have s': "\<forall>c\<in>set exSearchStore. isLatin1 (c_name c) \<and> isLatin1 (c_blueprintName c)"
    by (simp only: list_all_iff)
  have r: "searchContracts exSearchStore (codeUnits ''nda'') =
              filter (\<lambda>c. caseInsensitiveSubstring (codeUnits ''nda'') (c_name c) \<or>
                          caseInsensitiveSubstring (codeUnits ''nda'') (c_blueprintName c)) exSearchStore"
    using C9_searchContracts [where cs = exSearchStore and query = "codeUnits ''nda''"] q s'
    by - (elim conjE impE, intro conjI, assumption+)
  show ?thesis
    using q s ex_search r by (intro conjI) simp_all
qed

text \<open>
  Without the restriction the claim fails: lower-casing is not done letter by letter. In
  the name of \<open>exGreekContract\<close> the capital sigma ends the word and becomes the final
  small sigma, the query that is the capital sigma alone becomes the other small sigma,
  and the contract is not found although the query occurs in its name as it stands.
\<close>

lemma ex_sigma_lower:
  "toLowerCase (c_name exGreekContract) = [959, 948, 959, 962] \<and> toLowerCase exSigmaQuery = [963]"
  by (simp add: toLowerCase_def exGreekContract_def exSigmaQuery_def lowerUnit_def finalSigma_def
      casedAfterIgnorables_def caseIgnorable_def cased_def)

theorem C9_final_sigma_counterexample:
  "isSubstringOf exSigmaQuery (c_name exGreekContract)
   \<and> caseInsensitiveSubstring exSigmaQuery (c_name exGreekContract)
   \<and> searchContracts [exGreekContract] exSigmaQuery = []"
proof -
  have n: "c_name exGreekContract = [927, 916, 927] @ exSigmaQuery @ []"
    by (simp add: exGreekContract_def exSigmaQuery_def)
  then have 1: "isSubstringOf exSigmaQuery (c_name exGreekContract)"
    unfolding isSubstringOf_def by blast
  have "list_all2 sameIgnoringCase exSigmaQuery exSigmaQuery"
    by (simp add: exSigmaQuery_def sameIgnoringCase_def)
  then have 2: "caseInsensitiveSubstring exSigmaQuery (c_name exGreekContract)"
    unfolding caseInsensitiveSubstring_def using n by blast
  have b: "toLowerCase (c_blueprintName exGreekContract) = codeUnits ''lease''"
    by (simp add: exGreekContract_def codeUnits_def toLowerCase_def lowerUnit_def)
  have 3: "searchContracts [exGreekContract] exSigmaQuery = []"
    using ex_sigma_lower by (simp add: searchContracts_def Let_def b codeUnits_def)
  show ?thesis using 1 2 3 by (intro conjI)
qed

section \<open>Properties of createContract\<close>

lemma allocAll_eq: "allocAll h obs = ([length h ..< length h + length obs], h @ obs)"
proof (induction obs arbitrary: h)
  case Nil
  show ?case by simp
next
  case (Cons ob obs)
  have "[length h ..< length h + length (ob # obs)]
          = length h # [Suc (length h) ..< Suc (length h) + length obs]"
    by (subst upt_rec) simp
  then show ?case
    by (simp add: Cons.IH alloc_def)
qed

lemma length_sortByPosition: "length (sortByPosition h a) = length h"
  by (simp add: sortByPosition_def store_def)

lemma createContract_run:
  assumes "trim (i_name inp) \<noteq> []" and "getBlueprint bs (i_blueprintId inp) = Some bp"
  shows "createContract now nid h bs cs inp =
     (let h1 = sortByPosition h (b_fields bp);
          sorted = arrayAt h1 (b_fields bp);
          c = newContract now nid inp bp (length h + length sorted)
      in (Some c,
          h1 @ map (\<lambda>a. CFieldObj (toContractField (bfieldAt h1 a))) sorted
             @ [ArrayObj [length h ..< length h + length sorted]],
          cs @ [c]))"
  using assms
  by (simp add: createContract_def Let_def allocAll_eq alloc_def length_sortByPosition
      newContract_def)

lemma createContract_fail:
  "trim (i_name inp) = [] \<or> getBlueprint bs (i_blueprintId inp) = None
   \<Longrightarrow> createContract now nid h bs cs inp = (None, h, cs)"
  by (auto simp: createContract_def)


lemma trim_empty_iff: "(trim s = []) = (\<forall>c\<in>set s. isWhiteSpace c)"
proof
  assume "trim s = []"
  then have "dropWhile isWhiteSpace (rev (dropWhile isWhiteSpace s)) = []"
    by (simp add: trim_def)
  then have "\<forall>c\<in>set (rev (dropWhile isWhiteSpace s)). isWhiteSpace c"
    by (simp only: dropWhile_eq_Nil_conv)
  then have "\<forall>c\<in>set (dropWhile isWhiteSpace s). isWhiteSpace c"
    by (simp only: set_rev)
  then have "dropWhile isWhiteSpace s = []"
    using hd_dropWhile [of isWhiteSpace s] hd_in_set [of "dropWhile isWhiteSpace s"] by blast
  then show "\<forall>c\<in>set s. isWhiteSpace c"
    by (simp add: dropWhile_eq_Nil_conv)
next
  assume "\<forall>c\<in>set s. isWhiteSpace c"
  then have "dropWhile isWhiteSpace s = []"
    by (simp add: dropWhile_eq_Nil_conv)
  then show "trim s = []"
    by (simp add: trim_def del: dropWhile_eq_Nil_conv)
qed

lemma getBlueprint_None: "(getBlueprint bs i = None) = (i \<notin> b_id ` set bs)"
  by (auto simp: getBlueprint_def find_None_iff)

lemma getBlueprint_Some: "getBlueprint bs i = Some bp \<Longrightarrow> bp \<in> set bs \<and> b_id bp = i"
  by (auto simp: getBlueprint_def find_Some_iff)

lemma wf_blueprint_array:
  assumes "wf_blueprint h bp"
  shows "b_fields bp < length h \<and> h ! b_fields bp = ArrayObj (arrayAt h (b_fields bp))"
  using assms
  by (auto simp: wf_blueprint_def isArray_def arrayAt_def lookup_def
      split: if_splits option.splits obj.splits)

lemma wf_blueprint_elem:
  assumes "wf_blueprint h bp" and "a \<in> set (arrayAt h (b_fields bp))"
  shows "a < length h \<and> a \<noteq> b_fields bp \<and> h ! a = BFieldObj (bfieldAt h a)"
proof -
  have "isBField h a"
    using assms by (simp add: wf_blueprint_def list_all_iff)
  then have 1: "a < length h \<and> h ! a = BFieldObj (bfieldAt h a)"
    by (auto simp: isBField_def bfieldAt_def lookup_def split: if_splits option.splits obj.splits)
  moreover have "a \<noteq> b_fields bp"
    using 1 wf_blueprint_array [OF assms(1)] by auto
  ultimately show ?thesis by simp
qed

lemma lookup_append_old: "a < length h \<Longrightarrow> lookup (h @ xs) a = lookup h a"
  by (simp add: lookup_def nth_append)

lemma arrayAt_sortByPosition:
  "a < length h \<Longrightarrow>
   arrayAt (sortByPosition h a) a = sort_key (\<lambda>x. f_position (bfieldAt h x)) (arrayAt h a)"
  by (simp add: sortByPosition_def store_def arrayAt_def lookup_def)

lemma lookup_sortByPosition: "x \<noteq> a \<Longrightarrow> lookup (sortByPosition h a) x = lookup h x"
  by (simp add: sortByPosition_def store_def lookup_def)

lemma bfieldAt_sortByPosition: "x \<noteq> a \<Longrightarrow> bfieldAt (sortByPosition h a) x = bfieldAt h x"
  by (simp add: bfieldAt_def lookup_sortByPosition)

lemma map_insort_key: "map g (insort_key (\<lambda>x. f (g x)) a ys) = insort_key f (g a) (map g ys)"
  by (induction ys) simp_all

lemma map_sort_key: "map g (sort_key (\<lambda>x. f (g x)) xs) = sort_key f (map g xs)"
  by (induction xs) (simp_all add: map_insort_key)

lemma cfieldAt_new:
  "map (cfieldAt (h1 @ map CFieldObj fs @ zs)) [length h1 ..< length h1 + length fs] = fs"
proof (rule nth_equalityI)
  show "length (map (cfieldAt (h1 @ map CFieldObj fs @ zs)) [length h1 ..< length h1 + length fs])
          = length fs"
    by simp
next
  fix i
  assume "i < length (map (cfieldAt (h1 @ map CFieldObj fs @ zs)) [length h1 ..< length h1 + length fs])"
  then have i: "i < length fs" by simp
  then have "(h1 @ map CFieldObj fs @ zs) ! (length h1 + i) = CFieldObj (fs ! i)"
    by (simp add: nth_append)
  then have "cfieldAt (h1 @ map CFieldObj fs @ zs) (length h1 + i) = fs ! i"
    using i by (simp add: cfieldAt_def lookup_def)
  then show "map (cfieldAt (h1 @ map CFieldObj fs @ zs)) [length h1 ..< length h1 + length fs] ! i
          = fs ! i"
    using i by simp
qed

lemma arrayAt_new: "arrayAt (h1 @ objs @ [ArrayObj xs]) (length h1 + length objs) = xs"
  by (simp add: arrayAt_def lookup_def nth_append)

lemma contractFields_created:
  "contractFields (h1 @ map (\<lambda>a. CFieldObj (g a)) xs @ [ArrayObj [length h1 ..< length h1 + length xs]])
       (newContract now nid inp bp (length h1 + length xs))
     = map g xs"
proof -
  have c: "c_fields (newContract now nid inp bp (length h1 + length xs)) = length h1 + length (map (\<lambda>a. CFieldObj (g a)) xs)"
    by (simp add: newContract_def)
  have m: "map (\<lambda>a. CFieldObj (g a)) xs = map CFieldObj (map g xs)"
    by simp
  show ?thesis
    unfolding contractFields_def c arrayAt_new
    unfolding m using cfieldAt_new [of h1 "map g xs" "[ArrayObj [length h1 ..< length h1 + length xs]]"]
    by simp
qed

lemma toContractField_copy: "isCopyOf (toContractField bf) bf \<and> f_value (toContractField bf) = initialValue bf"
  by (cases "f_defaultChecked bf") (auto simp: isCopyOf_def toContractField_def initialValue_def)

lemma createContract_fields:
  assumes "trim (i_name inp) \<noteq> []" and "getBlueprint bs (i_blueprintId inp) = Some bp"
    and "wf_blueprint h bp"
    and "createContract now nid h bs cs inp = (r, h', cs')"
  shows "r = Some (newContract now nid inp bp (length h + length (arrayAt h (b_fields bp))))
       \<and> cs' = cs @ [newContract now nid inp bp (length h + length (arrayAt h (b_fields bp)))]
       \<and> contractFields h' (newContract now nid inp bp (length h + length (arrayAt h (b_fields bp))))
           = map toContractField (sort_key f_position (blueprintFields h bp))"
proof -
  let ?a = "b_fields bp"
  let ?h1 = "sortByPosition h ?a"
  let ?sorted = "arrayAt ?h1 ?a"
  let ?c = "newContract now nid inp bp (length h + length ?sorted)"
  have run: "createContract now nid h bs cs inp =
     (Some ?c,
      ?h1 @ map (\<lambda>a. CFieldObj (toContractField (bfieldAt ?h1 a))) ?sorted
          @ [ArrayObj [length h ..< length h + length ?sorted]],
      cs @ [?c])"
    using createContract_run [OF assms(1,2)] by (simp add: Let_def)
  have s: "?sorted = sort_key (\<lambda>x. f_position (bfieldAt h x)) (arrayAt h ?a)"
    using wf_blueprint_array [OF assms(3)] by (simp add: arrayAt_sortByPosition)
  then have len: "length ?sorted = length (arrayAt h ?a)" by simp
  have "set ?sorted = set (arrayAt h ?a)" using s by simp
  then have same: "map (\<lambda>a. toContractField (bfieldAt ?h1 a)) ?sorted
        = map (\<lambda>a. toContractField (bfieldAt h a)) ?sorted"
    using wf_blueprint_elem [OF assms(3)] by (simp add: bfieldAt_sortByPosition)
  have "contractFields h' ?c = map (\<lambda>a. toContractField (bfieldAt ?h1 a)) ?sorted"
    using run assms(4)
      contractFields_created [of ?h1 "\<lambda>a. toContractField (bfieldAt ?h1 a)" ?sorted now nid inp bp]
    by (simp add: length_sortByPosition)
  also have "\<dots> = map toContractField (map (bfieldAt h) ?sorted)"
    using same by simp
  also have "\<dots> = map toContractField (sort_key f_position (blueprintFields h bp))"
    unfolding s by (simp add: map_sort_key blueprintFields_def)
  finally show ?thesis
    using run assms(4) len by simp
qed

lemma ex_trim: "trim (i_name exInput) = codeUnits ''Vendor NDA''"
  by (simp add: exInput_def trim_def isWhiteSpace_def codeUnits_def)

lemma ex_getBlueprint: "getBlueprint [exBlueprint] (i_blueprintId exInput) = Some exBlueprint"
  by (simp add: getBlueprint_def exBlueprint_def exInput_def)

lemma ex_wf: "wf_blueprint exHeap exBlueprint"
  by (simp add: wf_blueprint_def isArray_def isBField_def arrayAt_def lookup_def exHeap_def
      exBlueprint_def)

lemma ex_sort: "sortByPosition exHeap 2 = [BFieldObj exFieldSign, BFieldObj exFieldName, ArrayObj [1, 0]]"
  by (simp add: sortByPosition_def store_def arrayAt_def bfieldAt_def lookup_def exHeap_def
      exFieldSign_def exFieldName_def)

lemma ex_create:
  "createContract ''t1'' ''c1'' exHeap [exBlueprint] [] exInput
     = (Some (exContract CREATED), exHeap', [exContract CREATED])"
proof -
  have a: "b_fields exBlueprint = 2" by (simp add: exBlueprint_def)
  have len: "length exHeap = 3" by (simp add: exHeap_def)
  have up: "[3..<5] = [3, 4::nat]" by (simp add: upt_rec)
  have n: "trim (i_name exInput) \<noteq> []" by (simp add: ex_trim codeUnits_def)
  show ?thesis
    unfolding createContract_run [OF n ex_getBlueprint] Let_def a ex_sort len
    by (simp add: arrayAt_def bfieldAt_def lookup_def newContract_def exContract_def
        exHeap'_def ex_trim exBlueprint_def up)
qed

lemma ex_blueprintFields: "blueprintFields exHeap exBlueprint = [exFieldSign, exFieldName]"
  by (simp add: blueprintFields_def arrayAt_def bfieldAt_def lookup_def exHeap_def exBlueprint_def)

lemma ex_blueprintFields': "blueprintFields exHeap' exBlueprint = [exFieldName, exFieldSign]"
  by (simp add: blueprintFields_def arrayAt_def bfieldAt_def lookup_def exHeap'_def exBlueprint_def)

lemma ex_contractFields:
  "contractFields exHeap' (exContract st) = [toContractField exFieldName, toContractField exFieldSign]"
  by (simp add: contractFields_def arrayAt_def cfieldAt_def lookup_def exHeap'_def exContract_def)

text \<open>
  Claim C6. \<open>createContract\<close> returns no contract and leaves heap and store as they were
  when the name is empty or consists of white space only, and when no stored blueprint
  has the given id. Otherwise (the blueprint being well-typed in the heap) it returns a
  contract, appended to the store, with status CREATED, the blueprint's current name as
  \<open>blueprintName\<close> and \<open>createdAt\<close> equal to \<open>updatedAt\<close>; its fields are as many as the
  blueprint's, in ascending order of position, each a copy of the blueprint field at the
  same place of the blueprint's fields sorted by position, with the default-checked
  flag (false if unset) as value for a CHECKBOX and null for every other type.
\<close>

theorem C6_createContract:
  "((\<forall>ch\<in>set (i_name inp). isWhiteSpace ch)
       \<longrightarrow> createContract now nid h bs cs inp = (None, h, cs))
   \<and> (i_blueprintId inp \<notin> b_id ` set bs
       \<longrightarrow> createContract now nid h bs cs inp = (None, h, cs))
   \<and> (\<forall>bp. (\<exists>ch\<in>set (i_name inp). \<not> isWhiteSpace ch)
            \<and> getBlueprint bs (i_blueprintId inp) = Some bp \<and> wf_blueprint h bp
       \<longrightarrow> (\<exists>c h'. createContract now nid h bs cs inp = (Some c, h', cs @ [c])
              \<and> c_status c = CREATED
              \<and> c_blueprintName c = b_name bp
              \<and> c_createdAt c = c_updatedAt c
              \<and> length (contractFields h' c) = length (blueprintFields h bp)
              \<and> sorted (map f_position (contractFields h' c))
              \<and> list_all2 (\<lambda>cf bf. isCopyOf cf bf \<and> f_value cf = initialValue bf)
                    (contractFields h' c) (sort_key f_position (blueprintFields h bp))))"
proof (intro conjI allI impI)
  assume "\<forall>ch\<in>set (i_name inp). isWhiteSpace ch"
  then have "trim (i_name inp) = []" by (simp add: trim_empty_iff)
  then show "createContract now nid h bs cs inp = (None, h, cs)"
    by (simp add: createContract_fail)
next
  assume "i_blueprintId inp \<notin> b_id ` set bs"
  then have "getBlueprint bs (i_blueprintId inp) = None" by (simp add: getBlueprint_None)
  then show "createContract now nid h bs cs inp = (None, h, cs)"
    by (simp add: createContract_fail)
next
  fix bp
  assume a: "(\<exists>ch\<in>set (i_name inp). \<not> isWhiteSpace ch)
            \<and> getBlueprint bs (i_blueprintId inp) = Some bp \<and> wf_blueprint h bp"
  then have n: "trim (i_name inp) \<noteq> []" by (simp add: trim_empty_iff)
  obtain r h' cs' where run: "createContract now nid h bs cs inp = (r, h', cs')"
    by (cases "createContract now nid h bs cs inp") auto
  let ?c = "newContract now nid inp bp (length h + length (arrayAt h (b_fields bp)))"
  let ?bfs = "sort_key f_position (blueprintFields h bp)"
  have b: "getBlueprint bs (i_blueprintId inp) = Some bp" and wf: "wf_blueprint h bp"
    using a by simp_all
  from createContract_fields [OF n b wf run]
  have r: "r = Some ?c" and cs': "cs' = cs @ [?c]"
    and fs: "contractFields h' ?c = map toContractField ?bfs"
    by simp_all
  have 1: "createContract now nid h bs cs inp = (Some ?c, h', cs @ [?c])"
    using run r cs' by simp
  have 2: "c_status ?c = CREATED \<and> c_blueprintName ?c = b_name bp \<and> c_createdAt ?c = c_updatedAt ?c"
    by (simp add: newContract_def)
  have 3: "length (contractFields h' ?c) = length (blueprintFields h bp)"
    by (simp add: fs)
  have "map f_position (map toContractField ?bfs) = map f_position ?bfs"
    by (simp add: toContractField_def)
  then have 4: "sorted (map f_position (contractFields h' ?c))"
    by (simp only: fs sorted_sort_key)
  have 5: "list_all2 (\<lambda>cf bf. isCopyOf cf bf \<and> f_value cf = initialValue bf)
             (contractFields h' ?c) ?bfs"
    unfolding fs by (simp add: list_all2_map1 toContractField_copy list_all2_same)
  show "\<exists>c h'. createContract now nid h bs cs inp = (Some c, h', cs @ [c])
              \<and> c_status c = CREATED
              \<and> c_blueprintName c = b_name bp
              \<and> c_createdAt c = c_updatedAt c
              \<and> length (contractFields h' c) = length (blueprintFields h bp)
              \<and> sorted (map f_position (contractFields h' c))
              \<and> list_all2 (\<lambda>cf bf. isCopyOf cf bf \<and> f_value cf = initialValue bf)
                    (contractFields h' c) (sort_key f_position (blueprintFields h bp))"
    using 1 2 3 4 5 by blast
qed

theorem C6_createContract_witness:
  "list_all isWhiteSpace (i_name exBlankInput)
   \<and> createContract ''t1'' ''c1'' exHeap [exBlueprint] [] exBlankInput = (None, exHeap, [])
   \<and> i_blueprintId exUnknownInput \<notin> b_id ` set [exBlueprint]
   \<and> createContract ''t1'' ''c1'' exHeap [exBlueprint] [] exUnknownInput = (None, exHeap, [])
   \<and> (\<exists>ch\<in>set (i_name exInput). \<not> isWhiteSpace ch)
   \<and> getBlueprint [exBlueprint] (i_blueprintId exInput) = Some exBlueprint
   \<and> wf_blueprint exHeap exBlueprint
   \<and> (\<exists>c h'. createContract ''t1'' ''c1'' exHeap [exBlueprint] [] exInput = (Some c, h', [] @ [c])
         \<and> c_status c = CREATED
         \<and> c_blueprintName c = b_name exBlueprint
         \<and> c_createdAt c = c_updatedAt c
         \<and> length (contractFields h' c) = length (blueprintFields exHeap exBlueprint)
         \<and> sorted (map f_position (contractFields h' c))
         \<and> list_all2 (\<lambda>cf bf. isCopyOf cf bf \<and> f_value cf = initialValue bf)
               (contractFields h' c) (sort_key f_position (blueprintFields exHeap exBlueprint)))
   \<and> createContract ''t1'' ''c1'' exHeap [exBlueprint] [] exInput
        = (Some (exContract CREATED), exHeap', [exContract CREATED])
   \<and> map f_label (contractFields exHeap' (exContract CREATED)) = [''Name'', ''Sign'']
   \<and> map f_value (contractFields exHeap' (exContract CREATED)) = [VNull, VNull]"
proof -
  have h1: "\<forall>ch\<in>set (i_name exBlankInput). isWhiteSpace ch"
    by (simp add: exBlankInput_def isWhiteSpace_def codeUnits_def)
  have h2: "i_blueprintId exUnknownInput \<notin> b_id ` set [exBlueprint]"
    by (simp add: exUnknownInput_def exBlueprint_def)
  have h3: "\<exists>ch\<in>set (i_name exInput). \<not> isWhiteSpace ch"
    by (simp add: exInput_def isWhiteSpace_def codeUnits_def)
  note inst = C6_createContract [where now = "''t1''" and nid = "''c1''" and h = exHeap
      and bs = "[exBlueprint]" and cs = "[]"]
  have r1: "createContract ''t1'' ''c1'' exHeap [exBlueprint] [] exBlankInput = (None, exHeap, [])"
    using inst [where inp = exBlankInput] h1 by blast
  have r2: "createContract ''t1'' ''c1'' exHeap [exBlueprint] [] exUnknownInput = (None, exHeap, [])"
    using inst [where inp = exUnknownInput] h2 by blast
  have r3: "\<exists>c h'. createContract ''t1'' ''c1'' exHeap [exBlueprint] [] exInput = (Some c, h', [] @ [c])
         \<and> c_status c = CREATED
         \<and> c_blueprintName c = b_name exBlueprint
         \<and> c_createdAt c = c_updatedAt c
         \<and> length (contractFields h' c) = length (blueprintFields exHeap exBlueprint)
         \<and> sorted (map f_position (contractFields h' c))
         \<and> list_all2 (\<lambda>cf bf. isCopyOf cf bf \<and> f_value cf = initialValue bf)
               (contractFields h' c) (sort_key f_position (blueprintFields exHeap exBlueprint))"
    using inst [where inp = exInput] h3 ex_getBlueprint ex_wf by blast
  have e: "map f_label (contractFields exHeap' (exContract CREATED)) = [''Name'', ''Sign'']
      \<and> map f_value (contractFields exHeap' (exContract CREATED)) = [VNull, VNull]"
    by (simp add: ex_contractFields toContractField_def exFieldName_def exFieldSign_def)
  have h1': "list_all isWhiteSpace (i_name exBlankInput)"
    using h1 by (simp add: list_all_iff)
  show ?thesis
    using h1' h2 h3 r1 r2 r3 e ex_create ex_getBlueprint ex_wf by (intro conjI) simp_all
qed

text \<open>
  What the call does to the blueprint it reads: afterwards the stored field list is the
  former one sorted by position, so it is the same sequence only if it was stored in
  ascending order of position.
\<close>

lemma createContract_stored_fields:
  assumes "trim (i_name inp) \<noteq> []" and "getBlueprint bs (i_blueprintId inp) = Some bp"
    and "wf_blueprint h bp"
    and "createContract now nid h bs cs inp = (r, h', cs')"
  shows "blueprintFields h' bp = sort_key f_position (blueprintFields h bp)"
proof -
  let ?a = "b_fields bp"
  let ?h1 = "sortByPosition h ?a"
  let ?sorted = "arrayAt ?h1 ?a"
  let ?new = "map (\<lambda>a. CFieldObj (toContractField (bfieldAt ?h1 a))) ?sorted
          @ [ArrayObj [length h ..< length h + length ?sorted]]"
  have h': "h' = ?h1 @ ?new"
    using createContract_run [OF assms(1,2), of now nid h cs] assms(4) by (simp add: Let_def)
  have a: "?a < length h" using wf_blueprint_array [OF assms(3)] by simp
  have s: "?sorted = sort_key (\<lambda>x. f_position (bfieldAt h x)) (arrayAt h ?a)"
    using a by (simp add: arrayAt_sortByPosition)
  have arr: "arrayAt h' ?a = ?sorted"
    unfolding h' arrayAt_def using a by (simp add: lookup_append_old length_sortByPosition)
  have "\<forall>x\<in>set ?sorted. bfieldAt h' x = bfieldAt h x"
  proof
    fix x assume "x \<in> set ?sorted"
    then have "x \<in> set (arrayAt h ?a)" using s by simp
    then have x: "x < length h \<and> x \<noteq> ?a" using wf_blueprint_elem [OF assms(3)] by blast
    then have "lookup h' x = lookup ?h1 x"
      unfolding h' by (simp add: lookup_append_old length_sortByPosition)
    then show "bfieldAt h' x = bfieldAt h x"
      using x by (simp add: bfieldAt_def lookup_sortByPosition)
  qed
  then have "blueprintFields h' bp = map (bfieldAt h) ?sorted"
    unfolding blueprintFields_def arr by simp
  then show ?thesis
    unfolding s by (simp add: map_sort_key blueprintFields_def)
qed

text \<open>
  Claim C10 says that a call of \<open>createContract\<close> leaves the referenced blueprint's stored
  field list the same sequence. The code sorts \<^verbatim>\<open>blueprint.fields\<close>, the stored array
  itself, in place: on the example blueprint, stored as "Sign" (position 1) before "Name"
  (position 0), the stored list reads "Name", "Sign" after the call.
\<close>

theorem C10_createContract_sorts_stored_fields:
  "getBlueprint [exBlueprint] (i_blueprintId exInput) = Some exBlueprint
   \<and> blueprintFields exHeap exBlueprint = [exFieldSign, exFieldName]
   \<and> blueprintFields (fst (snd (createContract ''t1'' ''c1'' exHeap [exBlueprint] [] exInput)))
        exBlueprint = [exFieldName, exFieldSign]
   \<and> blueprintFields (fst (snd (createContract ''t1'' ''c1'' exHeap [exBlueprint] [] exInput)))
        exBlueprint \<noteq> blueprintFields exHeap exBlueprint"
  by (simp add: ex_create ex_getBlueprint ex_blueprintFields ex_blueprintFields'
      exFieldName_def exFieldSign_def)

section \<open>The snapshot taken by createContract\<close>

lemma createContract_Some:
  assumes "createContract now nid h bs cs inp = (Some c, h', cs')"
  shows "\<exists>bp. trim (i_name inp) \<noteq> [] \<and> getBlueprint bs (i_blueprintId inp) = Some bp"
proof (rule ccontr)
  assume "\<not> (\<exists>bp. trim (i_name inp) \<noteq> [] \<and> getBlueprint bs (i_blueprintId inp) = Some bp)"
  then have "trim (i_name inp) = [] \<or> getBlueprint bs (i_blueprintId inp) = None"
    by auto
  then have "createContract now nid h bs cs inp = (None, h, cs)"
    using createContract_fail [of inp bs now nid h cs] by blast
  then show False using assms by simp
qed

lemma set_arrayAt_sortByPosition: "set (arrayAt (sortByPosition h a) x) = set (arrayAt h x)"
proof (cases "x = a \<and> a < length h")
  case True
  then show ?thesis by (simp add: arrayAt_sortByPosition)
next
  case False
  then have "lookup (sortByPosition h a) x = lookup h x"
    by (auto simp: sortByPosition_def store_def lookup_def)
  then have "arrayAt (sortByPosition h a) x = arrayAt h x"
    unfolding arrayAt_def by (rule arg_cong)
  then show ?thesis by (rule arg_cong)
qed

lemma blueprintAddrs_old:
  assumes "wf_blueprint h b"
  shows "blueprintAddrs (sortByPosition h a @ xs) b \<subseteq> {..< length h}"
    and "blueprintAddrs h b \<subseteq> {..< length h}"
proof -
  have f: "b_fields b < length h" using wf_blueprint_array [OF assms] by simp
  have e: "\<forall>x\<in>set (arrayAt h (b_fields b)). x < length h"
    using wf_blueprint_elem [OF assms] by blast
  have "arrayAt (sortByPosition h a @ xs) (b_fields b) = arrayAt (sortByPosition h a) (b_fields b)"
    using f by (simp add: arrayAt_def lookup_append_old length_sortByPosition)
  then have "set (arrayAt (sortByPosition h a @ xs) (b_fields b)) = set (arrayAt h (b_fields b))"
    by (simp add: set_arrayAt_sortByPosition)
  then show "blueprintAddrs (sortByPosition h a @ xs) b \<subseteq> {..< length h}"
    using f e by (auto simp: blueprintAddrs_def)
  show "blueprintAddrs h b \<subseteq> {..< length h}"
    using f e by (auto simp: blueprintAddrs_def)
qed

lemma contractAddrs_created:
  "contractAddrs (h1 @ objs @ [ArrayObj [length h1 ..< length h1 + length objs]])
       (newContract now nid inp bp (length h1 + length objs))
     = {length h1 .. length h1 + length objs}"
proof -
  have c: "c_fields (newContract now nid inp bp (length h1 + length objs)) = length h1 + length objs"
    by (simp add: newContract_def)
  show ?thesis
    unfolding contractAddrs_def c arrayAt_new by auto
qed

lemma lookup_applyOp:
  "a < length h \<Longrightarrow> (\<forall>ob. op \<noteq> Write a ob) \<Longrightarrow>
   a < length (applyOp h op) \<and> lookup (applyOp h op) a = lookup h a"
  by (cases op) (auto simp: store_def alloc_def lookup_def nth_append)

lemma lookup_applyOps:
  "a < length h \<Longrightarrow> (\<forall>ob. Write a ob \<notin> set ops) \<Longrightarrow> lookup (applyOps h ops) a = lookup h a"
proof (induction ops arbitrary: h)
  case Nil
  show ?case by (simp add: applyOps_def)
next
  case (Cons op ops)
  have 1: "a < length (applyOp h op) \<and> lookup (applyOp h op) a = lookup h a"
    using Cons.prems by (intro lookup_applyOp) auto
  have "lookup (applyOps (applyOp h op) ops) a = lookup (applyOp h op) a"
    using Cons.IH [of "applyOp h op"] 1 Cons.prems(2) by simp
  then show ?case using 1 by (simp add: applyOps_def)
qed

lemma contractFields_cong:
  assumes "\<forall>a\<in>contractAddrs h c. lookup h2 a = lookup h a"
  shows "contractFields h2 c = contractFields h c"
proof -
  have a: "arrayAt h2 (c_fields c) = arrayAt h (c_fields c)"
    using assms by (simp add: arrayAt_def contractAddrs_def)
  have "\<forall>x\<in>set (arrayAt h (c_fields c)). cfieldAt h2 x = cfieldAt h x"
    using assms by (simp add: cfieldAt_def contractAddrs_def)
  then show ?thesis
    unfolding contractFields_def a by simp
qed

text \<open>
  Claim C2. Let \<open>createContract\<close> return the contract \<open>c\<close>, all stored blueprints being
  well-typed in the heap. Then the objects \<open>c\<close> owns (its \<open>fields\<close> array and the field
  objects in it) are disjoint from the objects of every stored blueprint, before and after
  the call, and none of them existed before the call. So whatever is later written to
  other objects or allocated (any sequence of edits of a blueprint: relabelling, adding,
  removing, reordering its fields), the fields of \<open>c\<close> read the same. \<open>blueprintName\<close> is
  the name the blueprint had at the call, a string held by \<open>c\<close> itself; no operation on
  the contract store reads the blueprint store again, so deleting the blueprint changes
  nothing either.
\<close>

theorem C2_snapshot:
  assumes "\<forall>b\<in>set bs. wf_blueprint h b"
    and "createContract now nid h bs cs inp = (Some c, h', cs')"
  shows "(\<forall>b\<in>set bs. contractAddrs h' c \<inter> blueprintAddrs h b = {}
                    \<and> contractAddrs h' c \<inter> blueprintAddrs h' b = {})
       \<and> contractAddrs h' c \<inter> {..< length h} = {}
       \<and> (\<forall>ops. (\<forall>a ob. Write a ob \<in> set ops \<longrightarrow> a \<notin> contractAddrs h' c)
              \<longrightarrow> contractFields (applyOps h' ops) c = contractFields h' c)
       \<and> (\<exists>bp\<in>set bs. b_id bp = i_blueprintId inp \<and> c_blueprintName c = b_name bp)"
proof -
  obtain bp where n: "trim (i_name inp) \<noteq> []"
    and b: "getBlueprint bs (i_blueprintId inp) = Some bp"
    using createContract_Some [OF assms(2)] by blast
  let ?h1 = "sortByPosition h (b_fields bp)"
  let ?sorted = "arrayAt ?h1 (b_fields bp)"
  let ?objs = "map (\<lambda>a. CFieldObj (toContractField (bfieldAt ?h1 a))) ?sorted"
  have l1: "length ?h1 = length h" by (simp add: length_sortByPosition)
  have lo: "length ?objs = length ?sorted" by simp
  have c: "c = newContract now nid inp bp (length ?h1 + length ?objs)"
    and h': "h' = ?h1 @ ?objs @ [ArrayObj [length ?h1 ..< length ?h1 + length ?objs]]"
    using createContract_run [OF n b, of now nid h cs] assms(2)
    by (simp_all add: Let_def l1)
  have own: "contractAddrs h' c = {length h .. length h + length ?sorted}"
    unfolding c h' contractAddrs_created by (simp add: l1)
  have old: "contractAddrs h' c \<inter> {..< length h} = {}"
    unfolding own by auto
  have bps: "\<forall>b\<in>set bs. contractAddrs h' c \<inter> blueprintAddrs h b = {}
                    \<and> contractAddrs h' c \<inter> blueprintAddrs h' b = {}"
  proof
    fix b assume "b \<in> set bs"
    then have wf: "wf_blueprint h b" using assms(1) by blast
    have "blueprintAddrs h b \<subseteq> {..< length h}" and "blueprintAddrs h' b \<subseteq> {..< length h}"
      unfolding h' using blueprintAddrs_old [OF wf] by blast+
    then show "contractAddrs h' c \<inter> blueprintAddrs h b = {}
                    \<and> contractAddrs h' c \<inter> blueprintAddrs h' b = {}"
      using old by blast
  qed
  have frame: "\<forall>ops. (\<forall>a ob. Write a ob \<in> set ops \<longrightarrow> a \<notin> contractAddrs h' c)
              \<longrightarrow> contractFields (applyOps h' ops) c = contractFields h' c"
  proof (intro allI impI)
    fix ops assume w: "\<forall>a ob. Write a ob \<in> set ops \<longrightarrow> a \<notin> contractAddrs h' c"
    have "\<forall>a\<in>contractAddrs h' c. lookup (applyOps h' ops) a = lookup h' a"
    proof
      fix a assume a: "a \<in> contractAddrs h' c"
      then have "a < length h'" unfolding own by (simp add: h' l1)
      moreover have "\<forall>ob. Write a ob \<notin> set ops" using w a by blast
      ultimately show "lookup (applyOps h' ops) a = lookup h' a"
        by (rule lookup_applyOps)
    qed
    then show "contractFields (applyOps h' ops) c = contractFields h' c"
      by (rule contractFields_cong)
  qed
  have name: "\<exists>bp\<in>set bs. b_id bp = i_blueprintId inp \<and> c_blueprintName c = b_name bp"
    using getBlueprint_Some [OF b] c by (auto simp: newContract_def)
  show ?thesis using bps old frame name by blast
qed

lemma ex_edits_heap:
  "applyOps exHeap' exEdits =
     [BFieldObj exFieldSign, BFieldObj (exFieldName\<lparr>f_label := ''Full name''\<rparr>), ArrayObj [0],
      CFieldObj (toContractField exFieldName), CFieldObj (toContractField exFieldSign),
      ArrayObj [3, 4],
      BFieldObj (exFieldName\<lparr>f_id := ''f3'', f_label := ''Date'', f_type := DATE, f_position := 2\<rparr>)]"
  by (simp add: applyOps_def exEdits_def exHeap'_def store_def alloc_def)

theorem C2_snapshot_witness:
  "wf_blueprint exHeap exBlueprint
   \<and> createContract ''t1'' ''c1'' exHeap [exBlueprint] [] exInput
        = (Some (exContract CREATED), exHeap', [exContract CREATED])
   \<and> contractAddrs exHeap' (exContract CREATED) = {5, 3, 4}
   \<and> blueprintAddrs exHeap' exBlueprint = {2, 1, 0}
   \<and> contractFields (applyOps exHeap' exEdits) (exContract CREATED)
        = contractFields exHeap' (exContract CREATED)
   \<and> map f_label (blueprintFields (applyOps exHeap' exEdits) exBlueprint) = [''Sign'']
   \<and> map f_label (contractFields (applyOps exHeap' exEdits) (exContract CREATED)) = [''Name'', ''Sign'']
   \<and> contractAddrs exHeap' (exContract CREATED) \<inter> blueprintAddrs exHeap' exBlueprint = {}
   \<and> c_blueprintName (exContract CREATED) = codeUnits ''NDA Template''"
proof -
  have wf: "\<forall>b\<in>set [exBlueprint]. wf_blueprint exHeap b" by (simp add: ex_wf)
  note inst = C2_snapshot [OF wf ex_create]
  have own: "contractAddrs exHeap' (exContract CREATED) = {5, 3, 4}"
    by (simp add: contractAddrs_def arrayAt_def lookup_def exHeap'_def exContract_def)
  have w: "\<forall>a ob. Write a ob \<in> set exEdits \<longrightarrow> a \<notin> contractAddrs exHeap' (exContract CREATED)"
    unfolding own by (auto simp: exEdits_def)
  have r1: "contractFields (applyOps exHeap' exEdits) (exContract CREATED)
        = contractFields exHeap' (exContract CREATED)"
    using inst w by blast
  have r2: "contractAddrs exHeap' (exContract CREATED) \<inter> blueprintAddrs exHeap' exBlueprint = {}"
    using inst by simp
  have e1: "map f_label (blueprintFields (applyOps exHeap' exEdits) exBlueprint) = [''Sign'']"
    by (simp add: ex_edits_heap blueprintFields_def arrayAt_def bfieldAt_def lookup_def
        exBlueprint_def exFieldSign_def)
  have e2: "map f_label (contractFields (applyOps exHeap' exEdits) (exContract CREATED)) = [''Name'', ''Sign'']"
    unfolding r1 by (simp add: ex_contractFields toContractField_def exFieldName_def exFieldSign_def)
  have e3: "c_blueprintName (exContract CREATED) = codeUnits ''NDA Template''"
    by (simp add: exContract_def)
  have bp: "blueprintAddrs exHeap' exBlueprint = {2, 1, 0}"
    by (simp add: blueprintAddrs_def arrayAt_def lookup_def exHeap'_def exBlueprint_def)
  show ?thesis using ex_wf ex_create own bp r1 r2 e1 e2 e3 by (intro conjI)
qed

section \<open>Terminal statuses\<close>

lemma updateContractFields_ids:
  "updateContractFields now cs i fs = (ok, cs') \<Longrightarrow> map c_id cs' = map c_id cs"
  by (auto simp: updateContractFields_def Let_def comp_def split: option.splits if_splits)

lemma transitionStatus_ids:
  "transitionStatus now cs i st = (ok, cs') \<Longrightarrow> map c_id cs' = map c_id cs"
  by (auto simp: transitionStatus_def comp_def split: option.splits if_splits)

lemma deleteContract_ids:
  "deleteContract cs i = (ok, cs') \<Longrightarrow> distinct (map c_id cs) \<Longrightarrow> distinct (map c_id cs')"
  by (auto simp: deleteContract_def Let_def distinct_map_filter split: if_splits)

lemma createContract_ids:
  assumes "createContract now nid h bs cs inp = (r, h', cs')"
  shows "map c_id cs' = map c_id cs \<or> map c_id cs' = map c_id cs @ [nid]"
proof (cases "trim (i_name inp) = [] \<or> getBlueprint bs (i_blueprintId inp) = None")
  case True
  then show ?thesis using createContract_fail [of inp bs now nid h cs] assms by simp
next
  case False
  then obtain bp where "trim (i_name inp) \<noteq> []" "getBlueprint bs (i_blueprintId inp) = Some bp"
    by auto
  then show ?thesis
    using createContract_run [of inp bs bp now nid h cs] assms
    by (auto simp: Let_def newContract_def)
qed

lemma reachable_distinct: "reachable cs \<Longrightarrow> distinct (map c_id cs)"
proof (induction rule: reachable.induct)
  case reach_init
  show ?case by simp
next
  case (reach_create cs newId now h blueprints input r h' cs')
  then show ?case using createContract_ids [OF reach_create.hyps(3)] by auto
next
  case (reach_update cs now i updatedFields ok cs')
  then show ?case using updateContractFields_ids by metis
next
  case (reach_transition cs now i newStatus ok cs')
  then show ?case using transitionStatus_ids by metis
next
  case (reach_delete cs i ok cs')
  then show ?case using deleteContract_ids by metis
qed

text \<open>
  Claim C3. In a reachable store, for a stored contract whose status is SIGNED, LOCKED or
  REVOKED: every \<open>updateContractFields\<close> on its id returns \<open>False\<close> and leaves the store
  (hence its fields) unchanged; every \<open>transitionStatus\<close> on its id returns \<open>False\<close> and
  leaves the store unchanged, except the transition of a SIGNED contract to LOCKED, which
  succeeds and changes only its status and \<open>updatedAt\<close>.
\<close>

theorem C3_terminal:
  assumes "reachable cs" and "c \<in> set cs" and "c_status c \<in> {SIGNED, LOCKED, REVOKED}"
  shows "updateContractFields now cs (c_id c) fs = (False, cs)
       \<and> (\<not> (c_status c = SIGNED \<and> newStatus = LOCKED)
            \<longrightarrow> transitionStatus now cs (c_id c) newStatus = (False, cs))
       \<and> (c_status c = SIGNED
            \<longrightarrow> (\<exists>cs'. transitionStatus now cs (c_id c) LOCKED = (True, cs')
                   \<and> getContract cs' (c_id c) = Some (c\<lparr>c_status := LOCKED, c_updatedAt := now\<rparr>)))"
proof -
  have g: "getContract cs (c_id c) = Some c"
    using reachable_distinct [OF assms(1)] assms(2) by (rule getContract_distinct)
  have u: "updateContractFields now cs (c_id c) fs = (False, cs)"
    using g assms(3) by (auto simp: updateContractFields_def)
  have t: "\<not> (c_status c = SIGNED \<and> newStatus = LOCKED)
            \<longrightarrow> transitionStatus now cs (c_id c) newStatus = (False, cs)"
    using g assms(3) by (auto simp: transitionStatus_def canTransition_iff)
  have l: "c_status c = SIGNED
            \<longrightarrow> (\<exists>cs'. transitionStatus now cs (c_id c) LOCKED = (True, cs')
                   \<and> getContract cs' (c_id c) = Some (c\<lparr>c_status := LOCKED, c_updatedAt := now\<rparr>))"
  proof
    assume s: "c_status c = SIGNED"
    let ?cs' = "map (\<lambda>d. if c_id d = c_id c then d\<lparr>c_status := LOCKED, c_updatedAt := now\<rparr> else d) cs"
    have "transitionStatus now cs (c_id c) LOCKED = (True, ?cs')"
      using g s by (simp add: transitionStatus_def canTransition_iff)
    moreover have "getContract ?cs' (c_id c) = Some (c\<lparr>c_status := LOCKED, c_updatedAt := now\<rparr>)"
      using g by (intro getContract_map_hit) simp_all
    ultimately show "\<exists>cs'. transitionStatus now cs (c_id c) LOCKED = (True, cs')
                   \<and> getContract cs' (c_id c) = Some (c\<lparr>c_status := LOCKED, c_updatedAt := now\<rparr>)"
      by blast
  qed
  show ?thesis using u t l by blast
qed

lemma ex_transition:
  "canTransition st st' \<Longrightarrow>
   transitionStatus ''t1'' [exContract st] ''c1'' st' = (True, [exContract st'])"
  by (simp add: transitionStatus_def getContract_def exContract_def)

lemma ex_reachable: "reachable [exContract SIGNED]"
proof -
  have 0: "reachable [exContract CREATED]"
    using reach_create [OF reach_init _ ex_create] by simp
  have 1: "reachable [exContract APPROVED]"
    using reach_transition [OF 0 ex_transition [of CREATED APPROVED]]
    by (simp add: canTransition_iff)
  have 2: "reachable [exContract SENT]"
    using reach_transition [OF 1 ex_transition [of APPROVED SENT]]
    by (simp add: canTransition_iff)
  show ?thesis
    using reach_transition [OF 2 ex_transition [of SENT SIGNED]]
    by (simp add: canTransition_iff)
qed

theorem C3_terminal_witness:
  "reachable [exContract SIGNED]
   \<and> exContract SIGNED \<in> set [exContract SIGNED]
   \<and> c_status (exContract SIGNED) \<in> {SIGNED, LOCKED, REVOKED}
   \<and> updateContractFields ''t2'' [exContract SIGNED] ''c1'' 7 = (False, [exContract SIGNED])
   \<and> transitionStatus ''t2'' [exContract SIGNED] ''c1'' REVOKED = (False, [exContract SIGNED])
   \<and> (\<exists>cs'. transitionStatus ''t2'' [exContract SIGNED] ''c1'' LOCKED = (True, cs')
         \<and> getContract cs' ''c1'' = Some ((exContract SIGNED)\<lparr>c_status := LOCKED, c_updatedAt := ''t2''\<rparr>))"
proof -
  have m: "exContract SIGNED \<in> set [exContract SIGNED]" by simp
  have s: "c_status (exContract SIGNED) \<in> {SIGNED, LOCKED, REVOKED}"
    by (simp add: exContract_def)
  have i: "c_id (exContract SIGNED) = ''c1''" and st: "c_status (exContract SIGNED) = SIGNED"
    by (simp_all add: exContract_def)
  note inst = C3_terminal [OF ex_reachable m s, where now = "''t2''" and fs = 7
      and newStatus = REVOKED, unfolded i st]
  have r1: "updateContractFields ''t2'' [exContract SIGNED] ''c1'' 7 = (False, [exContract SIGNED])"
    using inst by (elim conjE)
  have r2: "transitionStatus ''t2'' [exContract SIGNED] ''c1'' REVOKED = (False, [exContract SIGNED])"
    using inst by simp
  have r3: "\<exists>cs'. transitionStatus ''t2'' [exContract SIGNED] ''c1'' LOCKED = (True, cs')
         \<and> getContract cs' ''c1'' = Some ((exContract SIGNED)\<lparr>c_status := LOCKED, c_updatedAt := ''t2''\<rparr>)"
    using inst by simp
  show ?thesis using ex_reachable m s r1 r2 r3 by (intro conjI)
qed

end
